theory Spec2Isabelle
  imports Main
begin

section \<open>Machine model\<close>

text \<open>
  The container of \<^verbatim>\<open>include/jmonticelli/ring_buffer.hh\<close> keeps raw pointers into one
  block obtained from its allocator. Pointers are modelled as addresses (natural numbers,
  counted in elements of \<^verbatim>\<open>ValueType\<close>); the memory is a function from addresses to values, so
  that two containers living in the same memory can be told apart. A null pointer returned by
  the allocator is \<open>None\<close>.

  \<^verbatim>\<open>std::size_t\<close> is taken to be 64 bits wide. Unsigned arithmetic wraps: every sum the source
  computes in \<^verbatim>\<open>std::size_t\<close> goes through \<open>size_t\<close>.
\<close>

definition SIZE_MAX :: nat where
  "SIZE_MAX = 2 ^ 64 - 1"

definition size_t :: "nat \<Rightarrow> nat" where
  "size_t n = n mod (SIZE_MAX + 1)"

datatype error = runtime_error string

text \<open>
  The memory, the regions handed out by allocators and not yet given back, and the log of
  the values on which the container ran a destructor (\<^verbatim>\<open>ptr->~ValueType_()\<close>), oldest first.
  Running a destructor leaves the bytes of the slot as they are.
\<close>

record 'a heap =
  mem :: "nat \<Rightarrow> 'a"
  allocated :: "(nat \<times> nat) list"
  destroyed :: "'a list"

text \<open>
  The allocation strategy is a collaborator of the container (\<^verbatim>\<open>std::allocator\<close> by default):
  it is a parameter of the model, a function that sees the regions in use and the number of
  elements asked for and answers with the base address, or with no address.
\<close>

type_synonym allocator = "(nat \<times> nat) list \<Rightarrow> nat \<Rightarrow> nat option"

definition allocate :: "allocator \<Rightarrow> nat \<Rightarrow> 'a heap \<Rightarrow> nat option \<times> 'a heap" where
  "allocate a n h =
     (case a (allocated h) n of
        None \<Rightarrow> (None, h)
      | Some p \<Rightarrow> (Some p, h\<lparr>allocated := (p, n) # allocated h\<rparr>))"

definition deallocate :: "nat \<Rightarrow> nat \<Rightarrow> 'a heap \<Rightarrow> 'a heap" where
  "deallocate p n h = h\<lparr>allocated := remove1 (p, n) (allocated h)\<rparr>"

text \<open>
  The fields of \<^verbatim>\<open>ring_buffer<ValueType, Allocator>\<close>, without the trailing underscore of the
  source. The two facts about \<^verbatim>\<open>ValueType\<close> that the code branches on, \<^verbatim>\<open>sizeof(ValueType)\<close> and
  \<^verbatim>\<open>std::is_destructible<ValueType>::value\<close>, are constants of the instantiation and are
  carried along with the fields.
\<close>

record ring_buffer =
  sizeof_ValueType :: nat
  is_destructible :: bool
  max_capacity :: nat
  allocator :: allocator
  buffer :: nat
  buffer_end :: nat
  begin_ptr :: nat
  end_ptr :: nat
  current_size :: nat

type_synonym 'a state = "ring_buffer \<times> 'a heap"

section \<open>Construction and destruction\<close>

definition ring_buffer_ctor ::
  "nat \<Rightarrow> bool \<Rightarrow> nat \<Rightarrow> allocator \<Rightarrow> 'a heap \<Rightarrow> error + 'a state" where
  "ring_buffer_ctor sizeof_T destructible max_cap alloc h =
     (if max_cap = 0
      then Inl (runtime_error ''ring_buffer: invalid size 0 requested'')
      else if max_cap \<ge> SIZE_MAX div 2
      then Inl (runtime_error ''ring_buffer: exceeded limit std::size_t max / 2'')
      else if sizeof_T = 0
      then Inl (runtime_error ''ring_buffer: Cannot allocate sizeless type'')
      else (case allocate alloc max_cap h of
              (None, h') \<Rightarrow>
                Inl (runtime_error ''ring_buffer: Failed to allocate internal buffer'')
            | (Some p, h') \<Rightarrow>
                Inr (\<lparr>sizeof_ValueType = sizeof_T, is_destructible = destructible,
                      max_capacity = max_cap, allocator = alloc,
                      buffer = p, buffer_end = p + (max_cap - 1),
                      begin_ptr = p, end_ptr = p, current_size = 0\<rparr>, h')))"

text \<open>\<^verbatim>\<open>~ring_buffer()\<close>: the body is the single call of \<^verbatim>\<open>deallocate\<close>.\<close>

fun ring_buffer_dtor :: "'a state \<Rightarrow> 'a heap" where
  "ring_buffer_dtor (rb, h) = deallocate (buffer rb) (max_capacity rb) h"

section \<open>Cursor arithmetic\<close>

definition advance_ptr_left :: "ring_buffer \<Rightarrow> nat \<Rightarrow> nat" where
  "advance_ptr_left rb ptr = (if ptr = buffer rb then buffer_end rb else ptr - 1)"

definition advance_ptr_right :: "ring_buffer \<Rightarrow> nat \<Rightarrow> nat" where
  "advance_ptr_right rb ptr = (if ptr = buffer_end rb then buffer rb else ptr + 1)"

definition destroy_at :: "nat \<Rightarrow> 'a heap \<Rightarrow> 'a heap" where
  "destroy_at ptr h = h\<lparr>destroyed := destroyed h @ [mem h ptr]\<rparr>"

text \<open>
  The two overloads of \<^verbatim>\<open>remove_advance_left\<close> and of \<^verbatim>\<open>remove_advance_right\<close> are chosen by
  \<^verbatim>\<open>std::is_destructible\<close>; they are the two branches here.
\<close>

definition remove_advance_left :: "ring_buffer \<Rightarrow> nat \<Rightarrow> 'a heap \<Rightarrow> nat \<times> 'a heap" where
  "remove_advance_left rb ptr h =
     (if is_destructible rb then (advance_ptr_left rb ptr, destroy_at ptr h)
      else (advance_ptr_left rb ptr, h))"

definition remove_advance_right :: "ring_buffer \<Rightarrow> nat \<Rightarrow> 'a heap \<Rightarrow> nat \<times> 'a heap" where
  "remove_advance_right rb ptr h =
     (if is_destructible rb then (advance_ptr_right rb ptr, destroy_at ptr h)
      else (advance_ptr_right rb ptr, h))"

text \<open>
  \<^verbatim>\<open>begin_diff\<close> is a \<^verbatim>\<open>std::ptrdiff_t\<close> and \<^verbatim>\<open>idx\<close> a \<^verbatim>\<open>std::size_t\<close>, so their sum is computed in
  \<^verbatim>\<open>std::size_t\<close>.
\<close>

definition unchecked_ptr_from_idx :: "ring_buffer \<Rightarrow> nat \<Rightarrow> nat" where
  "unchecked_ptr_from_idx rb idx =
     (let begin_diff = begin_ptr rb - buffer rb;
          buffer_idx = size_t (begin_diff + idx) mod max_capacity rb
      in buffer rb + buffer_idx)"

definition assert_idx :: "ring_buffer \<Rightarrow> nat \<Rightarrow> string \<Rightarrow> error + unit" where
  "assert_idx rb idx calling_func =
     (if idx \<ge> current_size rb
      then Inl (runtime_error (''ring_buffer index out-of-bounds in '' @ calling_func))
      else Inr ())"

section \<open>Insertion\<close>

fun add_back_uninitialized_element :: "'a state \<Rightarrow> 'a state" where
  "add_back_uninitialized_element (rb, h) =
     (let next_size = min (size_t (current_size rb + 1)) (max_capacity rb);
          rb1 = (if current_size rb > 0
                 then rb\<lparr>end_ptr := advance_ptr_right rb (end_ptr rb)\<rparr> else rb)
      in if current_size rb1 = next_size
         then (case remove_advance_right rb1 (begin_ptr rb1) h of
                 (p, h1) \<Rightarrow> (rb1\<lparr>begin_ptr := p\<rparr>, h1))
         else (rb1\<lparr>current_size := next_size\<rparr>, h))"

fun add_front_uninitialized_element :: "'a state \<Rightarrow> 'a state" where
  "add_front_uninitialized_element (rb, h) =
     (let next_size = min (size_t (current_size rb + 1)) (max_capacity rb);
          rb1 = (if current_size rb > 0
                 then rb\<lparr>begin_ptr := advance_ptr_left rb (begin_ptr rb)\<rparr> else rb)
      in if current_size rb1 = next_size
         then (case remove_advance_left rb1 (end_ptr rb1) h of
                 (p, h1) \<Rightarrow> (rb1\<lparr>end_ptr := p\<rparr>, h1))
         else (rb1\<lparr>current_size := next_size\<rparr>, h))"

declare add_back_uninitialized_element.simps [simp del]

declare add_front_uninitialized_element.simps [simp del]

text \<open>
  \<^verbatim>\<open>*end_ptr_ = type\<close> is an assignment into the slot. The source takes \<^verbatim>\<open>type\<close> by reference;
  the model takes the value the reference has at the call, which is the value it has at the
  assignment, since nothing before the assignment writes to the memory. For \<^verbatim>\<open>emplace_back\<close>
  and \<^verbatim>\<open>emplace_front\<close> the argument is the temporary \<^verbatim>\<open>ValueType(args...)\<close>; the destructor of
  the temporary is not a destructor call on a slot and is not logged.
\<close>

definition push_back :: "'a \<Rightarrow> 'a state \<Rightarrow> 'a state" where
  "push_back type s =
     (case add_back_uninitialized_element s of
        (rb, h) \<Rightarrow> (rb, h\<lparr>mem := (mem h)(end_ptr rb := type)\<rparr>))"

definition emplace_back :: "'a \<Rightarrow> 'a state \<Rightarrow> 'a state" where
  "emplace_back tmp s =
     (case add_back_uninitialized_element s of
        (rb, h) \<Rightarrow> (rb, h\<lparr>mem := (mem h)(end_ptr rb := tmp)\<rparr>))"

definition push_front :: "'a \<Rightarrow> 'a state \<Rightarrow> 'a state" where
  "push_front type s =
     (case add_front_uninitialized_element s of
        (rb, h) \<Rightarrow> (rb, h\<lparr>mem := (mem h)(begin_ptr rb := type)\<rparr>))"

definition emplace_front :: "'a \<Rightarrow> 'a state \<Rightarrow> 'a state" where
  "emplace_front tmp s =
     (case add_front_uninitialized_element s of
        (rb, h) \<Rightarrow> (rb, h\<lparr>mem := (mem h)(begin_ptr rb := tmp)\<rparr>))"

section \<open>Access\<close>

fun at :: "'a state \<Rightarrow> nat \<Rightarrow> error + 'a" where
  "at (rb, h) idx =
     (case assert_idx rb idx ''at'' of
        Inl e \<Rightarrow> Inl e
      | Inr _ \<Rightarrow> Inr (mem h (unchecked_ptr_from_idx rb idx)))"

definition front :: "'a state \<Rightarrow> error + 'a" where
  "front s = at s 0"

definition back_rb :: "'a state \<Rightarrow> error + 'a" where
  "back_rb s = at s (if current_size (fst s) = 0 then 0 else current_size (fst s) - 1)"

text \<open>\<^verbatim>\<open>size()\<close> and \<^verbatim>\<open>capacity()\<close>; \<open>back_rb\<close> above is \<^verbatim>\<open>back()\<close>.\<close>

definition size_rb :: "'a state \<Rightarrow> nat" where
  "size_rb s = current_size (fst s)"

definition capacity :: "'a state \<Rightarrow> nat" where
  "capacity s = max_capacity (fst s)"

section \<open>Removal\<close>

text \<open>
  Modelled from the spec: the argument of the calls of \<^verbatim>\<open>remove_advance_right\<close> in \<^verbatim>\<open>pop_front\<close>
  and of \<^verbatim>\<open>remove_advance_left\<close> in \<^verbatim>\<open>pop_back\<close>. The source writes both calls without an
  argument (\<^verbatim>\<open>begin_ptr_ = remove_advance_right();\<close>, \<^verbatim>\<open>end_ptr_ = remove_advance_left();\<close>),
  while every overload takes the pointer to remove: no overload is viable, and neither member
  can be instantiated as it stands. The specification says that the front, respectively the
  back, element is destroyed and the corresponding cursor advanced inward, so the argument
  here is the begin cursor, respectively the end cursor. The test of the size, the decrement
  and the two results are as the source has them. These two functions only serve to make the
  set of reachable states as large as a completed source would; no statement below says what
  the two pops of the source do.
\<close>

fun pop_front :: "'a state \<Rightarrow> bool \<times> 'a state" where
  "pop_front (rb, h) =
     (if current_size rb = 0 then (False, (rb, h))
      else (case remove_advance_right rb (begin_ptr rb) h of
              (p, h1) \<Rightarrow> (True, (rb\<lparr>begin_ptr := p, current_size := current_size rb - 1\<rparr>, h1))))"

fun pop_back :: "'a state \<Rightarrow> bool \<times> 'a state" where
  "pop_back (rb, h) =
     (if current_size rb = 0 then (False, (rb, h))
      else (case remove_advance_left rb (end_ptr rb) h of
              (p, h1) \<Rightarrow> (True, (rb\<lparr>end_ptr := p, current_size := current_size rb - 1\<rparr>, h1))))"

section \<open>Iterators\<close>

text \<open>
  An iterator holds a pointer to its container and a logical index. Containers are not
  objects of the modelled memory, so the container an iterator points to is passed to the
  operators that follow the pointer. \<^verbatim>\<open>Iterator\<close> and \<^verbatim>\<open>ConstIterator\<close> are the two
  instances of \<^verbatim>\<open>internal_Iterator\<close>; the operators that exist in a const and a non-const form
  are modelled once for each form.

  Names: \<open>it_eq\<close> is \<^verbatim>\<open>operator==\<close>, \<open>it_neq\<close> is \<^verbatim>\<open>operator!=\<close>, \<open>it_incr\<close> and \<open>it_decr\<close> are the
  non-const \<^verbatim>\<open>operator++\<close> and \<^verbatim>\<open>operator--\<close>, \<open>it_deref\<close> and \<open>it_deref_const\<close> are the two
  \<^verbatim>\<open>operator*\<close>, \<open>it_arrow\<close> and \<open>it_arrow_const\<close> the two \<^verbatim>\<open>operator->\<close>, which return a pointer;
  \<open>begin_it\<close> and \<open>end_it\<close> are \<^verbatim>\<open>begin()\<close> and \<^verbatim>\<open>end()\<close>.
\<close>

datatype internal_Iterator = Iterator (it_idx: nat)

definition begin_it :: "ring_buffer \<Rightarrow> internal_Iterator" where
  "begin_it rb = Iterator 0"

definition cbegin :: "ring_buffer \<Rightarrow> internal_Iterator" where
  "cbegin rb = Iterator 0"

definition end_it :: "ring_buffer \<Rightarrow> internal_Iterator" where
  "end_it rb = Iterator (current_size rb)"

definition cend :: "ring_buffer \<Rightarrow> internal_Iterator" where
  "cend rb = Iterator (current_size rb)"

definition it_eq :: "internal_Iterator \<Rightarrow> internal_Iterator \<Rightarrow> bool" where
  "it_eq a b = (it_idx a = it_idx b)"

definition it_neq :: "internal_Iterator \<Rightarrow> internal_Iterator \<Rightarrow> bool" where
  "it_neq a b = (\<not> it_eq a b)"

definition it_incr :: "ring_buffer \<Rightarrow> internal_Iterator \<Rightarrow> internal_Iterator" where
  "it_incr rb it = Iterator (min (current_size rb) (size_t (it_idx it + 1)))"

definition it_decr :: "internal_Iterator \<Rightarrow> internal_Iterator" where
  "it_decr it = (if it_idx it \<le> 0 then it else Iterator (it_idx it - 1))"

definition it_deref :: "'a state \<Rightarrow> internal_Iterator \<Rightarrow> error + 'a" where
  "it_deref s it = at s (it_idx it)"

definition it_deref_const :: "'a state \<Rightarrow> internal_Iterator \<Rightarrow> error + 'a" where
  "it_deref_const s it = at s (it_idx it)"

definition it_arrow :: "ring_buffer \<Rightarrow> internal_Iterator \<Rightarrow> nat" where
  "it_arrow rb it = unchecked_ptr_from_idx rb (it_idx it)"

definition it_arrow_const :: "ring_buffer \<Rightarrow> internal_Iterator \<Rightarrow> nat" where
  "it_arrow_const rb it = unchecked_ptr_from_idx rb (it_idx it)"

section \<open>Clearing and copying\<close>

text \<open>
  \<^verbatim>\<open>for (auto it = begin(); it != end(); ++it) it->~ValueType();\<close> The loop is written as it
  stands; that it ends is a property of the states the container can be in, proved below.
\<close>

partial_function (option) remove_elements_loop ::
  "ring_buffer \<Rightarrow> internal_Iterator \<Rightarrow> 'a heap \<Rightarrow> 'a heap option" where
  "remove_elements_loop rb it h =
     (if it_neq it (end_it rb)
      then remove_elements_loop rb (it_incr rb it) (destroy_at (it_arrow rb it) h)
      else Some h)"

definition remove_elements :: "'a state \<Rightarrow> 'a heap option" where
  "remove_elements s =
     (case s of (rb, h) \<Rightarrow>
        if is_destructible rb then remove_elements_loop rb (begin_it rb) h else Some h)"

definition clear :: "'a state \<Rightarrow> 'a state option" where
  "clear s =
     (case s of (rb, h) \<Rightarrow>
        (case remove_elements (rb, h) of
           None \<Rightarrow> None
         | Some h1 \<Rightarrow>
             Some (rb\<lparr>current_size := 0, begin_ptr := buffer rb, end_ptr := buffer rb\<rparr>, h1)))"

text \<open>
  \<^verbatim>\<open>std::copy(first1, last1, std::back_inserter(*this))\<close>: while \<^verbatim>\<open>first1 != last1\<close>, the value
  \<^verbatim>\<open>*first1\<close> is handed to \<^verbatim>\<open>push_back\<close> of the new container and \<^verbatim>\<open>first1\<close> is incremented.
  An exception of \<^verbatim>\<open>*first1\<close> leaves the loop.
\<close>

partial_function (option) std_copy ::
  "ring_buffer \<Rightarrow> internal_Iterator \<Rightarrow> internal_Iterator \<Rightarrow> 'a state \<Rightarrow> (error + 'a state) option"
  where
  "std_copy other first1 last1 s =
     (if it_neq first1 last1
      then (case it_deref_const (other, snd s) first1 of
              Inl e \<Rightarrow> Some (Inl e)
            | Inr v \<Rightarrow> std_copy other (it_incr other first1) last1 (push_back v s))
      else Some (Inr s))"

definition ring_buffer_copy_ctor :: "'a state \<Rightarrow> (error + 'a state) option" where
  "ring_buffer_copy_ctor s =
     (case s of (other, h) \<Rightarrow>
        if max_capacity other = 0
        then Some (Inl (runtime_error ''ring_buffer: invalid size 0 requested''))
        else (case allocate (allocator other) (max_capacity other) h of
                (None, h') \<Rightarrow>
                  Some (Inl (runtime_error ''ring_buffer: Failed to allocate internal buffer''))
              | (Some p, h') \<Rightarrow>
                  std_copy other (cbegin other) (cend other)
                    (\<lparr>sizeof_ValueType = sizeof_ValueType other,
                      is_destructible = is_destructible other,
                      max_capacity = max_capacity other, allocator = allocator other,
                      buffer = p, buffer_end = p + (max_capacity other - 1),
                      begin_ptr = p, end_ptr = p, current_size = 0\<rparr>, h')))"

section \<open>Reachable states\<close>

text \<open>
  The mutators of the public interface, as data, so that sequences of calls can be run.
  \<^verbatim>\<open>clear\<close> contains a loop, hence the optional result.
\<close>

datatype 'a mutation =
    Push_back 'a | Emplace_back 'a | Push_front 'a | Emplace_front 'a
  | Pop_front | Pop_back | Clear

fun apply_mutation :: "'a mutation \<Rightarrow> 'a state \<Rightarrow> 'a state option" where
  "apply_mutation (Push_back v) s = Some (push_back v s)"
| "apply_mutation (Emplace_back v) s = Some (emplace_back v s)"
| "apply_mutation (Push_front v) s = Some (push_front v s)"
| "apply_mutation (Emplace_front v) s = Some (emplace_front v s)"
| "apply_mutation Pop_front s = Some (snd (pop_front s))"
| "apply_mutation Pop_back s = Some (snd (pop_back s))"
| "apply_mutation Clear s = clear s"

text \<open>The states of a container after a successful construction and any calls of mutators.\<close>

inductive reachable :: "'a state \<Rightarrow> bool" where
  ctor: "ring_buffer_ctor sz d cap alloc h = Inr s \<Longrightarrow> reachable s"
| step: "reachable s \<Longrightarrow> apply_mutation m s = Some s' \<Longrightarrow> reachable s'"

text \<open>
  What every mutator keeps: the capacity is within the bounds of the constructor, both cursors
  point into the block, and the size does not exceed the capacity.
\<close>

definition wf_rb :: "ring_buffer \<Rightarrow> bool" where
  "wf_rb rb \<longleftrightarrow>
     1 \<le> max_capacity rb \<and> max_capacity rb < SIZE_MAX div 2 \<and>
     buffer_end rb = buffer rb + (max_capacity rb - 1) \<and>
     buffer rb \<le> begin_ptr rb \<and> begin_ptr rb \<le> buffer_end rb \<and>
     buffer rb \<le> end_ptr rb \<and> end_ptr rb \<le> buffer_end rb \<and>
     current_size rb \<le> max_capacity rb"

text \<open>
  The states reached from a successful construction by insertions and \<^verbatim>\<open>clear\<close> alone.
\<close>

inductive reachable_unpopped :: "'a state \<Rightarrow> bool" where
  ctor: "ring_buffer_ctor sz d cap alloc h = Inr s \<Longrightarrow> reachable_unpopped s"
| push_back: "reachable_unpopped s \<Longrightarrow> reachable_unpopped (push_back v s)"
| emplace_back: "reachable_unpopped s \<Longrightarrow> reachable_unpopped (emplace_back v s)"
| push_front: "reachable_unpopped s \<Longrightarrow> reachable_unpopped (push_front v s)"
| emplace_front: "reachable_unpopped s \<Longrightarrow> reachable_unpopped (emplace_front v s)"
| clear: "reachable_unpopped s \<Longrightarrow> clear s = Some s' \<Longrightarrow> reachable_unpopped s'"

text \<open>
  The end cursor is \<open>current_size - 1\<close> slots to the right of the begin cursor, with wraparound
  (and on it when the container is empty); offsets are taken from the start of the block.
\<close>

definition cursors_ok :: "ring_buffer \<Rightarrow> bool" where
  "cursors_ok rb \<longleftrightarrow>
     end_ptr rb - buffer rb =
       (begin_ptr rb - buffer rb + (current_size rb - 1)) mod max_capacity rb"

text \<open>A sequence of mutator calls on one container.\<close>

fun run :: "'a mutation list \<Rightarrow> 'a state \<Rightarrow> 'a state option" where
  "run [] s = Some s"
| "run (m # ms) s = (case apply_mutation m s of None \<Rightarrow> None | Some s' \<Rightarrow> run ms s')"

text \<open>The addresses of the block of a container.\<close>

definition region :: "ring_buffer \<Rightarrow> nat set" where
  "region rb = {buffer rb ..< buffer rb + max_capacity rb}"

text \<open>
  The block of \<open>n\<close> elements at \<open>p\<close> shares no address with the listed blocks: what is expected
  of the address an allocator returns, with respect to the blocks in use.
\<close>

definition no_overlap :: "nat \<Rightarrow> nat \<Rightarrow> (nat \<times> nat) list \<Rightarrow> bool" where
  "no_overlap p n regions = list_all (\<lambda>(q, m). p + n \<le> q \<or> q + m \<le> p) regions"

text \<open>What a mutator leaves alone: the block, the capacity, the allocator and the element type.\<close>

definition same_block :: "ring_buffer \<Rightarrow> ring_buffer \<Rightarrow> bool" where
  "same_block rb rb' \<longleftrightarrow>
     buffer rb' = buffer rb \<and> buffer_end rb' = buffer_end rb \<and>
     max_capacity rb' = max_capacity rb \<and> allocator rb' = allocator rb \<and>
     is_destructible rb' = is_destructible rb \<and> sizeof_ValueType rb' = sizeof_ValueType rb"

text \<open>
  The footprint of a step from \<open>s\<close> to \<open>s'\<close> of a container: outside of its block the memory is
  as before, and the set of blocks in use is unchanged.
\<close>

definition frame :: "'a state \<Rightarrow> 'a state \<Rightarrow> bool" where
  "frame s s' \<longleftrightarrow>
     same_block (fst s) (fst s') \<and> allocated (snd s') = allocated (snd s) \<and>
     (\<forall>x. x \<notin> region (fst s) \<longrightarrow> mem (snd s') x = mem (snd s) x)"

text \<open>A small allocator and an empty memory of \<^typ>\<open>int\<close> values, for concrete runs.\<close>

definition bump_allocator :: allocator where
  "bump_allocator regions n = Some (fold (\<lambda>(p, m) top. max top (p + m)) regions 0)"

definition empty_heap :: "int heap" where
  "empty_heap = \<lparr>mem = (\<lambda>_. 0), allocated = [], destroyed = []\<rparr>"

definition fresh2 :: "int state" where
  "fresh2 =
     (\<lparr>sizeof_ValueType = 4, is_destructible = True, max_capacity = 2,
       allocator = bump_allocator, buffer = 0, buffer_end = 1, begin_ptr = 0, end_ptr = 0,
       current_size = 0\<rparr>,
      \<lparr>mem = (\<lambda>_. 0), allocated = [(0, 2)], destroyed = []\<rparr>)"

definition full2 :: "int state" where
  "full2 = push_back 7 (push_back 5 (push_back 3 fresh2))"

text \<open>
  The elements of a container in logical order, as \<^verbatim>\<open>at\<close> returns them for the indices below
  the size.
\<close>

definition logical_contents :: "'a state \<Rightarrow> (error + 'a) list" where
  "logical_contents s = map (at s) [0 ..< size_rb s]"

text \<open>
  The loop of the copy-constructor tests:
  \<^verbatim>\<open>for (int i = 0; i < 5; ++i) { a.push_front(2 * i); a.push_back((2 * i) + 1); }\<close>
\<close>

definition interleave :: "int state \<Rightarrow> int state" where
  "interleave s = fold (\<lambda>i s. push_back (2 * i + 1) (push_front (2 * i) s)) [0, 1, 2, 3, 4] s"

definition fresh10 :: "int state" where
  "fresh10 =
     (\<lparr>sizeof_ValueType = 4, is_destructible = True, max_capacity = 10,
       allocator = bump_allocator, buffer = 0, buffer_end = 9, begin_ptr = 0, end_ptr = 0,
       current_size = 0\<rparr>,
      \<lparr>mem = (\<lambda>_. 0), allocated = [(0, 10)], destroyed = []\<rparr>)"

definition one2 :: "int state" where
  "one2 = push_back 3 fresh2"

section \<open>Basic facts\<close>

subsection \<open>The invariant of the mutators\<close>

lemma size_t_id: "n \<le> SIZE_MAX \<Longrightarrow> size_t n = n"
  by (simp add: size_t_def)

lemma SIZE_MAX_half: "n < SIZE_MAX div 2 \<Longrightarrow> 2 * n + 2 \<le> SIZE_MAX"
  by (simp add: SIZE_MAX_def)

lemma wf_size_t_succ: "wf_rb rb \<Longrightarrow> size_t (current_size rb + 1) = current_size rb + 1"
  unfolding wf_rb_def using SIZE_MAX_half [of "max_capacity rb"]
  by (intro size_t_id) linarith

lemma advance_ptr_right_range:
  "wf_rb rb \<Longrightarrow> buffer rb \<le> p \<Longrightarrow> p \<le> buffer_end rb \<Longrightarrow>
   buffer rb \<le> advance_ptr_right rb p \<and> advance_ptr_right rb p \<le> buffer_end rb"
  by (auto simp: advance_ptr_right_def wf_rb_def)

lemma advance_ptr_left_range:
  "wf_rb rb \<Longrightarrow> buffer rb \<le> p \<Longrightarrow> p \<le> buffer_end rb \<Longrightarrow>
   buffer rb \<le> advance_ptr_left rb p \<and> advance_ptr_left rb p \<le> buffer_end rb"
  by (auto simp: advance_ptr_left_def wf_rb_def)

lemma wf_add_back: "wf_rb rb \<Longrightarrow> wf_rb (fst (add_back_uninitialized_element (rb, h)))"
  using wf_size_t_succ [of rb] advance_ptr_right_range [of rb "end_ptr rb"]
    advance_ptr_right_range [of rb "begin_ptr rb"]
  by (auto simp: add_back_uninitialized_element.simps Let_def remove_advance_right_def wf_rb_def
      advance_ptr_right_def split: prod.splits if_splits)

lemma wf_add_front: "wf_rb rb \<Longrightarrow> wf_rb (fst (add_front_uninitialized_element (rb, h)))"
  using wf_size_t_succ [of rb] advance_ptr_left_range [of rb "end_ptr rb"]
    advance_ptr_left_range [of rb "begin_ptr rb"]
  by (auto simp: add_front_uninitialized_element.simps Let_def remove_advance_left_def wf_rb_def
      advance_ptr_left_def split: prod.splits if_splits)

lemma fst_push_back: "fst (push_back v s) = fst (add_back_uninitialized_element s)"
  by (simp add: push_back_def split: prod.splits)

lemma fst_emplace_back: "fst (emplace_back v s) = fst (add_back_uninitialized_element s)"
  by (simp add: emplace_back_def split: prod.splits)

lemma fst_push_front: "fst (push_front v s) = fst (add_front_uninitialized_element s)"
  by (simp add: push_front_def split: prod.splits)

lemma fst_emplace_front: "fst (emplace_front v s) = fst (add_front_uninitialized_element s)"
  by (simp add: emplace_front_def split: prod.splits)

lemma wf_push_back: "wf_rb (fst s) \<Longrightarrow> wf_rb (fst (push_back v s))"
  using wf_add_back [of "fst s" "snd s"] by (simp add: fst_push_back)

lemma wf_emplace_back: "wf_rb (fst s) \<Longrightarrow> wf_rb (fst (emplace_back v s))"
  using wf_add_back [of "fst s" "snd s"] by (simp add: fst_emplace_back)

lemma wf_push_front: "wf_rb (fst s) \<Longrightarrow> wf_rb (fst (push_front v s))"
  using wf_add_front [of "fst s" "snd s"] by (simp add: fst_push_front)

lemma wf_emplace_front: "wf_rb (fst s) \<Longrightarrow> wf_rb (fst (emplace_front v s))"
  using wf_add_front [of "fst s" "snd s"] by (simp add: fst_emplace_front)

lemma wf_pop_front: "wf_rb (fst s) \<Longrightarrow> wf_rb (fst (snd (pop_front s)))"
  using advance_ptr_right_range [of "fst s" "begin_ptr (fst s)"]
  by (cases s) (auto simp: remove_advance_right_def wf_rb_def advance_ptr_right_def split: prod.splits)

lemma wf_pop_back: "wf_rb (fst s) \<Longrightarrow> wf_rb (fst (snd (pop_back s)))"
  using advance_ptr_left_range [of "fst s" "end_ptr (fst s)"]
  by (cases s) (auto simp: remove_advance_left_def wf_rb_def advance_ptr_left_def split: prod.splits)

lemma wf_clear: "wf_rb (fst s) \<Longrightarrow> clear s = Some s' \<Longrightarrow> wf_rb (fst s')"
  by (cases s) (auto simp: clear_def wf_rb_def split: option.splits)

lemma wf_ctor: "ring_buffer_ctor sz d cap alloc h = Inr s \<Longrightarrow> wf_rb (fst s)"
  by (auto simp: ring_buffer_ctor_def wf_rb_def allocate_def split: if_splits option.splits)

lemma wf_apply_mutation: "wf_rb (fst s) \<Longrightarrow> apply_mutation m s = Some s' \<Longrightarrow> wf_rb (fst s')"
  by (cases m) (auto simp: wf_push_back wf_emplace_back wf_push_front wf_emplace_front
      wf_pop_front wf_pop_back wf_clear)

lemma reachable_wf: "reachable s \<Longrightarrow> wf_rb (fst s)"
  by (induction rule: reachable.induct) (auto simp: wf_ctor wf_apply_mutation)

subsection \<open>Addresses and indices\<close>

lemma unchecked_ptr_from_idx_wf:
  "wf_rb rb \<Longrightarrow> idx \<le> max_capacity rb \<Longrightarrow>
   unchecked_ptr_from_idx rb idx = buffer rb + (begin_ptr rb - buffer rb + idx) mod max_capacity rb"
proof -
  assume w: "wf_rb rb" and i: "idx \<le> max_capacity rb"
  have "begin_ptr rb - buffer rb + idx \<le> SIZE_MAX"
    using w i SIZE_MAX_half [of "max_capacity rb"] unfolding wf_rb_def by linarith
  then show ?thesis
    by (simp add: unchecked_ptr_from_idx_def size_t_id)
qed

lemma remove_elements_loop_result:
  "wf_rb rb \<Longrightarrow> it_idx it \<le> current_size rb \<Longrightarrow>
   remove_elements_loop rb it h =
     Some (h\<lparr>destroyed := destroyed h @
             map (\<lambda>i. mem h (unchecked_ptr_from_idx rb i)) [it_idx it ..< current_size rb]\<rparr>)"
proof (induction "current_size rb - it_idx it" arbitrary: it h)
  case 0
  then have "it_idx it = current_size rb" by simp
  then show ?case
    by (subst remove_elements_loop.simps) (simp add: it_neq_def it_eq_def end_it_def)
next
  case (Suc n)
  then have lt: "it_idx it < current_size rb" by linarith
  have "it_idx it + 1 \<le> SIZE_MAX"
    using lt Suc.prems(1) SIZE_MAX_half [of "max_capacity rb"] unfolding wf_rb_def by linarith
  then have nxt: "it_incr rb it = Iterator (it_idx it + 1)"
    using lt by (simp add: it_incr_def size_t_id)
  have "remove_elements_loop rb (Iterator (it_idx it + 1)) (destroy_at (it_arrow rb it) h) =
     Some ((destroy_at (it_arrow rb it) h)\<lparr>destroyed := destroyed (destroy_at (it_arrow rb it) h) @
             map (\<lambda>i. mem (destroy_at (it_arrow rb it) h) (unchecked_ptr_from_idx rb i))
               [it_idx (Iterator (it_idx it + 1)) ..< current_size rb]\<rparr>)"
    using Suc.hyps(2) Suc.prems lt by (intro Suc.hyps(1)) auto
  then show ?case
    using lt nxt
    by (subst remove_elements_loop.simps)
       (simp add: it_neq_def it_eq_def end_it_def destroy_at_def it_arrow_def upt_conv_Cons)
qed

lemma reachable_push_back: "reachable s \<Longrightarrow> reachable (push_back v s)"
  by (erule reachable.step [where m = "Push_back v"]) simp

lemma wf_rbD:
  assumes "wf_rb rb"
  shows "1 \<le> max_capacity rb" "max_capacity rb < SIZE_MAX div 2"
    "buffer_end rb = buffer rb + (max_capacity rb - 1)"
    "buffer rb \<le> begin_ptr rb" "begin_ptr rb \<le> buffer_end rb"
    "buffer rb \<le> end_ptr rb" "end_ptr rb \<le> buffer_end rb"
    "current_size rb \<le> max_capacity rb"
  using assms unfolding wf_rb_def by blast+

lemma advance_ptr_right_mod:
  assumes "wf_rb rb" "buffer rb \<le> p" "p \<le> buffer_end rb"
  shows "advance_ptr_right rb p = buffer rb + (p - buffer rb + 1) mod max_capacity rb"
proof (cases "p = buffer_end rb")
  case True
  then have "p - buffer rb + 1 = max_capacity rb"
    using wf_rbD(1,3) [OF assms(1)] by linarith
  then show ?thesis using True by (simp add: advance_ptr_right_def)
next
  case False
  then have "p - buffer rb + 1 < max_capacity rb"
    using wf_rbD(1,3) [OF assms(1)] assms(2,3) by linarith
  then have "(p - buffer rb + 1) mod max_capacity rb = p - buffer rb + 1" by simp
  moreover have "buffer rb + (p - buffer rb + 1) = p + 1" using assms(2) by linarith
  ultimately show ?thesis using False by (simp only: advance_ptr_right_def if_False)
qed

lemma advance_ptr_left_mod:
  assumes "wf_rb rb" "buffer rb \<le> p" "p \<le> buffer_end rb"
  shows "advance_ptr_left rb p =
    buffer rb + (p - buffer rb + max_capacity rb - 1) mod max_capacity rb"
proof (cases "p = buffer rb")
  case True
  have "(max_capacity rb - 1) mod max_capacity rb = max_capacity rb - 1"
    using wf_rbD(1) [OF assms(1)] by simp
  then show ?thesis
    using True wf_rbD(3) [OF assms(1)] by (simp add: advance_ptr_left_def)
next
  case False
  then have e: "p - buffer rb + max_capacity rb - 1 = (p - buffer rb - 1) + max_capacity rb"
    and lt: "p - buffer rb - 1 < max_capacity rb"
    using wf_rbD(1,3) [OF assms(1)] assms(2,3) by linarith+
  have "(p - buffer rb + max_capacity rb - 1) mod max_capacity rb = p - buffer rb - 1"
    unfolding e using lt by simp
  moreover have "buffer rb + (p - buffer rb - 1) = p - 1" using False assms(2) by linarith
  ultimately show ?thesis using False by (simp only: advance_ptr_left_def if_False)
qed

lemma unchecked_ptr_from_idx_0:
  assumes "wf_rb rb"
  shows "unchecked_ptr_from_idx rb 0 = begin_ptr rb"
proof -
  have "begin_ptr rb - buffer rb < max_capacity rb"
    using wf_rbD(1,3,4,5) [OF assms] by linarith
  then have "(begin_ptr rb - buffer rb + 0) mod max_capacity rb = begin_ptr rb - buffer rb"
    by simp
  moreover have "buffer rb + (begin_ptr rb - buffer rb) = begin_ptr rb"
    using wf_rbD(4) [OF assms] by linarith
  ultimately show ?thesis
    using unchecked_ptr_from_idx_wf [OF assms, of 0] by simp
qed

lemma front_is_begin:
  assumes "wf_rb rb" "1 \<le> current_size rb"
  shows "front (rb, h) = Inr (mem h (begin_ptr rb))"
  using assms(2) unchecked_ptr_from_idx_0 [OF assms(1)]
  by (simp add: front_def assert_idx_def)

lemma at_out_of_range:
  "current_size rb \<le> idx \<Longrightarrow>
   at (rb, h) idx = Inl (runtime_error ''ring_buffer index out-of-bounds in at'')"
  by (simp add: assert_idx_def)

lemma at_in_range:
  assumes "wf_rb rb" and "idx < current_size rb"
  shows "at (rb, h) idx =
     Inr (mem h (buffer rb + (begin_ptr rb - buffer rb + idx) mod max_capacity rb))"
proof -
  have "idx \<le> max_capacity rb" using assms by (simp add: wf_rb_def)
  then have "unchecked_ptr_from_idx rb idx =
      buffer rb + (begin_ptr rb - buffer rb + idx) mod max_capacity rb"
    using assms(1) by (rule unchecked_ptr_from_idx_wf [rotated])
  moreover have "at (rb, h) idx = Inr (mem h (unchecked_ptr_from_idx rb idx))"
    using assms(2) by (simp add: assert_idx_def)
  ultimately show ?thesis by simp
qed

lemma ctor_size: "ring_buffer_ctor sz d cap alloc h0 = Inr s0 \<Longrightarrow> current_size (fst s0) = 0"
  by (auto simp: ring_buffer_ctor_def split: if_splits prod.splits option.splits)

lemma ctor_capacity: "ring_buffer_ctor sz d cap alloc h0 = Inr s0 \<Longrightarrow> max_capacity (fst s0) = cap"
  by (auto simp: ring_buffer_ctor_def split: if_splits prod.splits option.splits)

lemma ctor_Inr:
  "ring_buffer_ctor sz d cap alloc h = Inr s \<Longrightarrow>
   \<exists>p. alloc (allocated h) cap = Some p \<and> 1 \<le> cap \<and> cap < SIZE_MAX div 2 \<and>
   s = (\<lparr>sizeof_ValueType = sz, is_destructible = d, max_capacity = cap, allocator = alloc,
         buffer = p, buffer_end = p + (cap - 1), begin_ptr = p, end_ptr = p, current_size = 0\<rparr>,
        h\<lparr>allocated := (p, cap) # allocated h\<rparr>)"
  by (auto simp: ring_buffer_ctor_def allocate_def split: if_splits option.splits)

lemma at_unfold:
  "at s idx =
     (case assert_idx (fst s) idx ''at'' of
        Inl e \<Rightarrow> Inl e
      | Inr _ \<Rightarrow> Inr (mem (snd s) (unchecked_ptr_from_idx (fst s) idx)))"
  by (cases s) (simp split: sum.splits)

lemma ring_buffer_dtor_unfold:
  "ring_buffer_dtor s = deallocate (buffer (fst s)) (max_capacity (fst s)) (snd s)"
  by (cases s) simp

subsection \<open>The two insertion steps, case by case\<close>

lemma advance_ptr_right_upd [simp]:
  "advance_ptr_right (rb\<lparr>end_ptr := x\<rparr>) p = advance_ptr_right rb p"
  "advance_ptr_right (rb\<lparr>begin_ptr := x\<rparr>) p = advance_ptr_right rb p"
  "advance_ptr_right (rb\<lparr>current_size := n\<rparr>) p = advance_ptr_right rb p"
  by (simp_all add: advance_ptr_right_def)

lemma advance_ptr_left_upd [simp]:
  "advance_ptr_left (rb\<lparr>end_ptr := x\<rparr>) p = advance_ptr_left rb p"
  "advance_ptr_left (rb\<lparr>begin_ptr := x\<rparr>) p = advance_ptr_left rb p"
  "advance_ptr_left (rb\<lparr>current_size := n\<rparr>) p = advance_ptr_left rb p"
  by (simp_all add: advance_ptr_left_def)

lemma next_size_eq:
  assumes "wf_rb rb"
  shows "min (size_t (current_size rb + 1)) (max_capacity rb) =
     (if current_size rb < max_capacity rb then current_size rb + 1 else current_size rb)"
  using wf_size_t_succ [OF assms] wf_rbD(8) [OF assms] by (simp add: min_def)

lemma add_back_eq:
  assumes "wf_rb rb"
  shows "add_back_uninitialized_element (rb, h) =
     (if current_size rb = 0 then (rb\<lparr>current_size := 1\<rparr>, h)
      else if current_size rb < max_capacity rb
      then (rb\<lparr>end_ptr := advance_ptr_right rb (end_ptr rb),
               current_size := current_size rb + 1\<rparr>, h)
      else (rb\<lparr>end_ptr := advance_ptr_right rb (end_ptr rb),
               begin_ptr := advance_ptr_right rb (begin_ptr rb)\<rparr>,
            if is_destructible rb then destroy_at (begin_ptr rb) h else h))"
  using wf_rbD(1) [OF assms]
  unfolding add_back_uninitialized_element.simps next_size_eq [OF assms] Let_def
  by (simp add: remove_advance_right_def)

lemma add_front_eq:
  assumes "wf_rb rb"
  shows "add_front_uninitialized_element (rb, h) =
     (if current_size rb = 0 then (rb\<lparr>current_size := 1\<rparr>, h)
      else if current_size rb < max_capacity rb
      then (rb\<lparr>begin_ptr := advance_ptr_left rb (begin_ptr rb),
               current_size := current_size rb + 1\<rparr>, h)
      else (rb\<lparr>begin_ptr := advance_ptr_left rb (begin_ptr rb),
               end_ptr := advance_ptr_left rb (end_ptr rb)\<rparr>,
            if is_destructible rb then destroy_at (end_ptr rb) h else h))"
  using wf_rbD(1) [OF assms]
  unfolding add_front_uninitialized_element.simps next_size_eq [OF assms] Let_def
  by (simp add: remove_advance_left_def)

subsection \<open>Arithmetic of wraparound\<close>

lemma wrap1: "((b + m) mod c + 1) mod c = (b + Suc m) mod (c::nat)"
  by (simp add: mod_simps)

lemma wrap2: "((b + m) mod c + 1) mod c = ((b + 1) mod c + m) mod (c::nat)"
  by (simp add: mod_simps)

lemma wrap3: "c = Suc k \<Longrightarrow> (b + m) mod c = ((b + k) mod c + Suc m) mod c"
proof -
  assume c: "c = Suc k"
  have "((b + k) mod c + Suc m) mod c = (b + k + Suc m) mod c" by (rule mod_add_left_eq)
  also have "b + k + Suc m = (b + m) + c" using c by simp
  also have "\<dots> mod c = (b + m) mod c" by simp
  finally show ?thesis by simp
qed

lemma wrap4: "((b + m) mod c + k) mod c = ((b + k) mod c + m) mod (c::nat)"
  by (simp add: mod_simps ac_simps)

subsection \<open>The cursors span the window\<close>

lemma advance_ptr_right_off:
  assumes "wf_rb rb" "buffer rb \<le> p" "p \<le> buffer_end rb"
  shows "advance_ptr_right rb p - buffer rb = (p - buffer rb + 1) mod max_capacity rb"
  using advance_ptr_right_mod [OF assms] by simp

lemma advance_ptr_left_off:
  assumes "wf_rb rb" "buffer rb \<le> p" "p \<le> buffer_end rb" "max_capacity rb = Suc k"
  shows "advance_ptr_left rb p - buffer rb = (p - buffer rb + k) mod max_capacity rb"
proof -
  have "p - buffer rb + max_capacity rb - 1 = p - buffer rb + k" using assms(4) by simp
  then show ?thesis using advance_ptr_left_mod [OF assms(1-3)] by simp
qed

lemma cursors_ok_add_back:
  assumes w: "wf_rb rb" and c: "cursors_ok rb"
  shows "cursors_ok (fst (add_back_uninitialized_element (rb, h)))"
proof -
  note r = advance_ptr_right_off [OF w wf_rbD(6,7) [OF w]]
    advance_ptr_right_off [OF w wf_rbD(4,5) [OF w]]
  show ?thesis
  proof (cases "current_size rb")
    case 0
    then show ?thesis using c by (simp add: add_back_eq [OF w] cursors_ok_def)
  next
    case (Suc m)
    then show ?thesis
      using c r wrap1 [of "begin_ptr rb - buffer rb" m "max_capacity rb"]
        wrap2 [of "begin_ptr rb - buffer rb" m "max_capacity rb"]
      by (simp add: add_back_eq [OF w] cursors_ok_def)
  qed
qed

lemma cursors_ok_add_front:
  assumes w: "wf_rb rb" and c: "cursors_ok rb"
  shows "cursors_ok (fst (add_front_uninitialized_element (rb, h)))"
proof -
  obtain k where k: "max_capacity rb = Suc k"
    using wf_rbD(1) [OF w] by (cases "max_capacity rb") simp_all
  note l = advance_ptr_left_off [OF w wf_rbD(6,7) [OF w] k]
    advance_ptr_left_off [OF w wf_rbD(4,5) [OF w] k]
  show ?thesis
  proof (cases "current_size rb")
    case 0
    then show ?thesis using c by (simp add: add_front_eq [OF w] cursors_ok_def)
  next
    case (Suc m)
    then show ?thesis
      using c l wrap3 [OF k, of "begin_ptr rb - buffer rb" m]
        wrap4 [of "begin_ptr rb - buffer rb" m "max_capacity rb" k]
      by (simp add: add_front_eq [OF w] cursors_ok_def)
  qed
qed

lemma cursors_ok_clear: "clear s = Some s' \<Longrightarrow> cursors_ok (fst s')"
  by (cases s) (auto simp: clear_def cursors_ok_def split: option.splits)

lemma cursors_ok_ctor: "ring_buffer_ctor sz d cap alloc h = Inr s \<Longrightarrow> cursors_ok (fst s)"
  by (auto simp: ring_buffer_ctor_def cursors_ok_def allocate_def split: if_splits option.splits)

lemma reachable_unpopped_reachable: "reachable_unpopped s \<Longrightarrow> reachable s"
proof (induction rule: reachable_unpopped.induct)
  case (ctor sz d cap alloc h s)
  then show ?case by (rule reachable.ctor)
next
  case (push_back s v)
  show ?case by (rule reachable.step [OF push_back.IH, where m = "Push_back v"]) simp
next
  case (emplace_back s v)
  show ?case by (rule reachable.step [OF emplace_back.IH, where m = "Emplace_back v"]) simp
next
  case (push_front s v)
  show ?case by (rule reachable.step [OF push_front.IH, where m = "Push_front v"]) simp
next
  case (emplace_front s v)
  show ?case by (rule reachable.step [OF emplace_front.IH, where m = "Emplace_front v"]) simp
next
  case (clear s s')
  show ?case by (rule reachable.step [OF clear.IH, where m = Clear]) (simp add: clear.hyps)
qed

lemma reachable_unpopped_cursors_ok: "reachable_unpopped s \<Longrightarrow> cursors_ok (fst s)"
proof (induction rule: reachable_unpopped.induct)
  case (ctor sz d cap alloc h s)
  then show ?case by (rule cursors_ok_ctor)
next
  case (push_back s v)
  have "wf_rb (fst s)" using push_back.hyps reachable_unpopped_reachable reachable_wf by blast
  then show ?case
    using cursors_ok_add_back [of "fst s" "snd s"] push_back.IH by (simp add: fst_push_back)
next
  case (emplace_back s v)
  have "wf_rb (fst s)" using emplace_back.hyps reachable_unpopped_reachable reachable_wf by blast
  then show ?case
    using cursors_ok_add_back [of "fst s" "snd s"] emplace_back.IH
    by (simp add: fst_emplace_back)
next
  case (push_front s v)
  have "wf_rb (fst s)" using push_front.hyps reachable_unpopped_reachable reachable_wf by blast
  then show ?case
    using cursors_ok_add_front [of "fst s" "snd s"] push_front.IH by (simp add: fst_push_front)
next
  case (emplace_front s v)
  have "wf_rb (fst s)" using emplace_front.hyps reachable_unpopped_reachable reachable_wf by blast
  then show ?case
    using cursors_ok_add_front [of "fst s" "snd s"] emplace_front.IH
    by (simp add: fst_emplace_front)
next
  case (clear s s')
  show ?case using clear.hyps(2) by (rule cursors_ok_clear)
qed

lemma walk_right:
  assumes w: "wf_rb rb" and p: "buffer rb \<le> p" "p \<le> buffer_end rb"
  shows "(advance_ptr_right rb ^^ n) p = buffer rb + (p - buffer rb + n) mod max_capacity rb"
proof (induction n)
  case 0
  have "p - buffer rb < max_capacity rb" using wf_rbD(1,3) [OF w] p by linarith
  then show ?case using p by simp
next
  case (Suc n)
  let ?q = "buffer rb + (p - buffer rb + n) mod max_capacity rb"
  have c: "0 < max_capacity rb" using wf_rbD(1) [OF w] by simp
  then have "(p - buffer rb + n) mod max_capacity rb < max_capacity rb" by simp
  then have q: "buffer rb \<le> ?q" "?q \<le> buffer_end rb"
    using wf_rbD(3) [OF w] by linarith+
  have "advance_ptr_right rb ?q = buffer rb + (?q - buffer rb + 1) mod max_capacity rb"
    using w q by (rule advance_ptr_right_mod)
  also have "(?q - buffer rb + 1) mod max_capacity rb = (p - buffer rb + Suc n) mod max_capacity rb"
    by (simp add: mod_simps)
  finally show ?case using Suc.IH by simp
qed

lemma pop_front_unfold:
  "pop_front s =
     (if current_size (fst s) = 0 then (False, s)
      else (True,
            ((fst s)\<lparr>begin_ptr := advance_ptr_right (fst s) (begin_ptr (fst s)),
                     current_size := current_size (fst s) - 1\<rparr>,
             if is_destructible (fst s) then destroy_at (begin_ptr (fst s)) (snd s)
             else snd s)))"
  by (cases s) (simp add: remove_advance_right_def)

lemma pop_back_unfold:
  "pop_back s =
     (if current_size (fst s) = 0 then (False, s)
      else (True,
            ((fst s)\<lparr>end_ptr := advance_ptr_left (fst s) (end_ptr (fst s)),
                     current_size := current_size (fst s) - 1\<rparr>,
             if is_destructible (fst s) then destroy_at (end_ptr (fst s)) (snd s)
             else snd s)))"
  by (cases s) (simp add: remove_advance_left_def)

subsection \<open>Filling a fresh container\<close>

lemma push_back_unfold:
  "push_back v s =
     (fst (add_back_uninitialized_element s),
      (snd (add_back_uninitialized_element s))
        \<lparr>mem := (mem (snd (add_back_uninitialized_element s)))
                  (end_ptr (fst (add_back_uninitialized_element s)) := v)\<rparr>)"
  by (simp add: push_back_def split: prod.splits)

lemma wf_rb_upd_fresh:
  assumes "wf_rb rb" "n \<le> max_capacity rb"
  shows "wf_rb (rb\<lparr>end_ptr := buffer rb + (n - 1), current_size := n\<rparr>)"
  using assms unfolding wf_rb_def by auto

lemma fold_push_back_fresh:
  assumes w: "wf_rb rb" and z: "current_size rb = 0"
    and b: "begin_ptr rb = buffer rb" and e: "end_ptr rb = buffer rb"
  shows "length vs \<le> max_capacity rb \<Longrightarrow>
     fold push_back vs (rb, h) =
       (rb\<lparr>end_ptr := buffer rb + (length vs - 1), current_size := length vs\<rparr>,
        h\<lparr>mem := (\<lambda>x. if buffer rb \<le> x \<and> x < buffer rb + length vs
                       then vs ! (x - buffer rb) else mem h x)\<rparr>)"
proof (induction vs rule: rev_induct)
  case Nil
  have "(\<lambda>x. if buffer rb \<le> x \<and> x < buffer rb + length ([] :: 'a list)
             then [] ! (x - buffer rb) else mem h x) = mem h"
    by (rule ext) auto
  then show ?case using z e by simp
next
  case (snoc v vs)
  let ?n = "length vs"
  let ?rb = "rb\<lparr>end_ptr := buffer rb + (?n - 1), current_size := ?n\<rparr>"
  let ?h = "h\<lparr>mem := (\<lambda>x. if buffer rb \<le> x \<and> x < buffer rb + ?n
                       then vs ! (x - buffer rb) else mem h x)\<rparr>"
  have n: "?n < max_capacity rb" using snoc.prems by simp
  have st: "fold push_back vs (rb, h) = (?rb, ?h)" using snoc.IH n by simp
  have w': "wf_rb ?rb" using w n by (intro wf_rb_upd_fresh) simp_all
  have adv: "advance_ptr_right rb (buffer rb + (?n - 1)) = buffer rb + ?n" if p: "0 < ?n"
  proof -
    have "buffer rb + (?n - 1) \<noteq> buffer_end rb" using p n wf_rbD(3) [OF w] by linarith
    moreover have "buffer rb + (?n - 1) + 1 = buffer rb + ?n" using p by linarith
    ultimately show ?thesis by (simp only: advance_ptr_right_def if_False)
  qed
  have ab: "add_back_uninitialized_element (?rb, ?h) =
      (rb\<lparr>end_ptr := buffer rb + ?n, current_size := Suc ?n\<rparr>, ?h)"
  proof (cases "?n = 0")
    case True
    then show ?thesis unfolding add_back_eq [OF w'] by simp
  next
    case False
    then have a: "advance_ptr_right rb (buffer rb + (?n - Suc 0)) = buffer rb + ?n"
      using adv by simp
    show ?thesis unfolding add_back_eq [OF w'] using False n by (simp add: a)
  qed
  have m: "(\<lambda>x. if buffer rb \<le> x \<and> x < buffer rb + ?n then vs ! (x - buffer rb) else mem h x)
        (buffer rb + ?n := v) =
      (\<lambda>x. if buffer rb \<le> x \<and> x < buffer rb + Suc ?n
           then (vs @ [v]) ! (x - buffer rb) else mem h x)"
    by (rule ext) (auto simp: nth_append)
  have "fold push_back (vs @ [v]) (rb, h) = push_back v (?rb, ?h)"
    using st by simp
  also have "\<dots> = (rb\<lparr>end_ptr := buffer rb + ?n, current_size := Suc ?n\<rparr>,
      ?h\<lparr>mem := (mem ?h)(buffer rb + ?n := v)\<rparr>)"
    unfolding push_back_unfold ab by simp
  finally show ?case using m by simp
qed

lemma ctor_Inr_wf:
  assumes "ring_buffer_ctor sz d cap alloc h = Inr (rb, h')"
  shows "wf_rb rb" "current_size rb = 0" "begin_ptr rb = buffer rb" "end_ptr rb = buffer rb"
    "max_capacity rb = cap"
  using wf_ctor [OF assms] ctor_Inr [OF assms] by auto

lemma push_back_full:
  assumes w: "wf_rb rb" and f: "current_size rb = max_capacity rb"
  shows "push_back v (rb, h) =
     (rb\<lparr>end_ptr := advance_ptr_right rb (end_ptr rb),
         begin_ptr := advance_ptr_right rb (begin_ptr rb)\<rparr>,
      h\<lparr>mem := (mem h)(advance_ptr_right rb (end_ptr rb) := v),
        destroyed := (if is_destructible rb then destroyed h @ [mem h (begin_ptr rb)]
                      else destroyed h)\<rparr>)"
proof -
  have "0 < current_size rb" using f wf_rbD(1) [OF w] by simp
  then show ?thesis
    unfolding push_back_unfold add_back_eq [OF w] using f by (simp add: destroy_at_def)
qed

lemma push_back_overflow:
  assumes ctor: "ring_buffer_ctor sz d C alloc h0 = Inr s0"
  shows "size_rb (fold push_back (map int [0..<Suc C]) s0) = C \<and>
         logical_contents (fold push_back (map int [0..<Suc C]) s0) =
           map (\<lambda>i. Inr (int i)) [1..<Suc C]"
proof -
  obtain rb h1 where s0: "s0 = (rb, h1)" by (cases s0)
  note c = ctor_Inr_wf [OF ctor [unfolded s0]]
  let ?B = "buffer rb"
  let ?M = "\<lambda>x. if ?B \<le> x \<and> x < ?B + C then int (x - ?B) else mem h1 x"
  let ?rb = "rb\<lparr>end_ptr := ?B + (C - 1), current_size := C\<rparr>"
  let ?h = "h1\<lparr>mem := ?M\<rparr>"
  have C: "1 \<le> C" using wf_rbD(1) [OF c(1)] c(5) by simp
  have "fold push_back (map int [0..<C]) (rb, h1) =
       (rb\<lparr>end_ptr := ?B + (length (map int [0..<C]) - 1),
           current_size := length (map int [0..<C])\<rparr>,
        h1\<lparr>mem := (\<lambda>x. if ?B \<le> x \<and> x < ?B + length (map int [0..<C])
                       then map int [0..<C] ! (x - ?B) else mem h1 x)\<rparr>)"
    using c by (intro fold_push_back_fresh) simp_all
  moreover have "(\<lambda>x. if ?B \<le> x \<and> x < ?B + length (map int [0..<C])
                       then map int [0..<C] ! (x - ?B) else mem h1 x) = ?M"
    by (rule ext) auto
  ultimately have filled: "fold push_back (map int [0..<C]) (rb, h1) = (?rb, ?h)" by simp
  have w: "wf_rb ?rb" using c(1) c(5) by (intro wf_rb_upd_fresh) simp_all
  have full: "current_size ?rb = max_capacity ?rb" using c(5) by simp
  have be: "buffer_end rb = ?B + (C - 1)" using wf_rbD(3) [OF c(1)] c(5) by simp
  define b' where "b' = advance_ptr_right rb ?B"
  let ?rb' = "rb\<lparr>end_ptr := ?B, begin_ptr := b', current_size := C\<rparr>"
  let ?h' = "h1\<lparr>mem := ?M(?B := int C),
        destroyed := (if is_destructible rb then destroyed h1 @ [?M ?B] else destroyed h1)\<rparr>"
  have pb: "push_back (int C) (?rb, ?h) = (?rb', ?h')"
    unfolding push_back_full [OF w full] using c(3) be
    by (simp add: advance_ptr_right_def b'_def)
  have "fold push_back (map int [0..<Suc C]) s0 = push_back (int C) (?rb, ?h)"
    using filled s0 by simp
  then have final: "fold push_back (map int [0..<Suc C]) s0 = (?rb', ?h')"
    using pb by simp
  have "wf_rb (fst (push_back (int C) (?rb, ?h)))"
    using w by (intro wf_push_back) simp
  then have w': "wf_rb ?rb'" unfolding pb by simp
  have off: "b' - ?B = 1 mod C"
    using advance_ptr_right_off [OF c(1), of ?B] wf_rbD(3) [OF c(1)] c(5)
    by (simp add: b'_def)
  have el: "at (?rb', ?h') i = Inr (int (Suc i))" if i: "i < C" for i
  proof -
    have a: "at (?rb', ?h') i = Inr (mem ?h' (?B + (b' - ?B + i) mod C))"
      using at_in_range [OF w', of i ?h'] i c(5) by simp
    have b: "(b' - ?B + i) mod C = Suc i mod C"
      using off by (simp add: mod_simps)
    have m: "mem ?h' (?B + Suc i mod C) = int (Suc i)"
    proof (cases "Suc i = C")
      case True
      then show ?thesis by simp
    next
      case False
      then have "Suc i mod C = Suc i" using i by simp
      then show ?thesis using i False by simp
    qed
    show ?thesis by (simp only: a b m)
  qed
  have "logical_contents (?rb', ?h') = map (\<lambda>i. Inr (int (Suc i))) [0..<C]"
    unfolding logical_contents_def size_rb_def using el by (intro map_cong) simp_all
  also have "\<dots> = map (\<lambda>i. Inr (int i)) (map Suc [0..<C])" by (simp add: comp_def)
  also have "map Suc [0..<C] = [1..<Suc C]" by (simp add: map_Suc_upt)
  finally have lc: "logical_contents (?rb', ?h') = map (\<lambda>i. Inr (int i)) [1..<Suc C]" .
  have sz: "size_rb (?rb', ?h') = C" by (simp add: size_rb_def)
  show ?thesis unfolding final using sz lc by (rule conjI)
qed

subsection \<open>Footprint of the mutators and copying\<close>

lemma frame_refl: "frame s s"
  by (simp add: frame_def same_block_def)

lemma frame_trans: "frame s s' \<Longrightarrow> frame s' s'' \<Longrightarrow> frame s s''"
  by (auto simp: frame_def same_block_def region_def)

lemma in_regionI: "wf_rb rb \<Longrightarrow> buffer rb \<le> p \<Longrightarrow> p \<le> buffer_end rb \<Longrightarrow> p \<in> region rb"
  using wf_rbD(1,3) [of rb] by (auto simp: region_def)

lemma frame_add_back:
  "wf_rb rb \<Longrightarrow> frame (rb, h) (add_back_uninitialized_element (rb, h))"
  by (simp add: add_back_eq frame_def same_block_def destroy_at_def)

lemma frame_add_front:
  "wf_rb rb \<Longrightarrow> frame (rb, h) (add_front_uninitialized_element (rb, h))"
  by (simp add: add_front_eq frame_def same_block_def destroy_at_def)

lemma push_front_unfold:
  "push_front v s =
     (fst (add_front_uninitialized_element s),
      (snd (add_front_uninitialized_element s))
        \<lparr>mem := (mem (snd (add_front_uninitialized_element s)))
                  (begin_ptr (fst (add_front_uninitialized_element s)) := v)\<rparr>)"
  by (simp add: push_front_def split: prod.splits)

lemma emplace_back_eq: "emplace_back v s = push_back v s"
  by (simp add: emplace_back_def push_back_def)

lemma emplace_front_eq: "emplace_front v s = push_front v s"
  by (simp add: emplace_front_def push_front_def)

lemma frame_push_back:
  assumes "wf_rb (fst s)"
  shows "frame s (push_back v s)"
proof -
  obtain rb h where s: "s = (rb, h)" by (cases s)
  have w: "wf_rb rb" using assms s by simp
  let ?t = "add_back_uninitialized_element (rb, h)"
  have f: "frame (rb, h) ?t" using w by (rule frame_add_back)
  have w': "wf_rb (fst ?t)" using w by (rule wf_add_back)
  have "end_ptr (fst ?t) \<in> region (fst ?t)"
    using w' wf_rbD(6,7) [OF w'] by (rule in_regionI)
  then have "end_ptr (fst ?t) \<in> region rb"
    using f by (simp add: frame_def same_block_def region_def)
  then show ?thesis
    using f unfolding s push_back_unfold by (auto simp: frame_def)
qed

lemma frame_push_front:
  assumes "wf_rb (fst s)"
  shows "frame s (push_front v s)"
proof -
  obtain rb h where s: "s = (rb, h)" by (cases s)
  have w: "wf_rb rb" using assms s by simp
  let ?t = "add_front_uninitialized_element (rb, h)"
  have f: "frame (rb, h) ?t" using w by (rule frame_add_front)
  have w': "wf_rb (fst ?t)" using w by (rule wf_add_front)
  have "begin_ptr (fst ?t) \<in> region (fst ?t)"
    using w' wf_rbD(4,5) [OF w'] by (rule in_regionI)
  then have "begin_ptr (fst ?t) \<in> region rb"
    using f by (simp add: frame_def same_block_def region_def)
  then show ?thesis
    using f unfolding s push_front_unfold by (auto simp: frame_def)
qed

lemma frame_pop_front: "frame s (snd (pop_front s))"
  by (simp add: pop_front_unfold frame_def same_block_def destroy_at_def)

lemma frame_pop_back: "frame s (snd (pop_back s))"
  by (simp add: pop_back_unfold frame_def same_block_def destroy_at_def)

lemma clear_result:
  assumes "wf_rb rb"
  shows "clear (rb, h) =
     Some (rb\<lparr>current_size := 0, begin_ptr := buffer rb, end_ptr := buffer rb\<rparr>,
           if is_destructible rb
           then h\<lparr>destroyed := destroyed h @
                  map (\<lambda>i. mem h (unchecked_ptr_from_idx rb i)) [0 ..< current_size rb]\<rparr>
           else h)"
  using remove_elements_loop_result [OF assms, of "begin_it rb" h]
  by (simp add: clear_def remove_elements_def begin_it_def)

lemma frame_clear: "wf_rb (fst s) \<Longrightarrow> \<exists>s'. clear s = Some s' \<and> frame s s'"
  by (cases s) (simp add: clear_result frame_def same_block_def)

lemma apply_mutation_frame:
  assumes "wf_rb (fst s)"
  shows "\<exists>s'. apply_mutation m s = Some s' \<and> frame s s' \<and> wf_rb (fst s')"
proof -
  have "\<exists>s'. apply_mutation m s = Some s' \<and> frame s s'"
  proof (cases m)
    case Clear
    then show ?thesis using frame_clear [OF assms] by simp
  qed (simp_all add: emplace_back_eq emplace_front_eq frame_push_back [OF assms]
        frame_push_front [OF assms] frame_pop_front frame_pop_back)
  then show ?thesis using wf_apply_mutation [OF assms] by blast
qed

lemma run_frame:
  "wf_rb (fst s) \<Longrightarrow> \<exists>s'. run ms s = Some s' \<and> frame s s' \<and> wf_rb (fst s')"
proof (induction ms arbitrary: s)
  case Nil
  then show ?case by (simp add: frame_refl)
next
  case (Cons m ms)
  obtain s1 where s1: "apply_mutation m s = Some s1" "frame s s1" "wf_rb (fst s1)"
    using apply_mutation_frame [OF Cons.prems] by blast
  obtain s2 where s2: "run ms s1 = Some s2" "frame s1 s2" "wf_rb (fst s2)"
    using Cons.IH [OF s1(3)] by blast
  show ?case using s1(1) s2(1,3) frame_trans [OF s1(2) s2(2)] by simp
qed

lemma unchecked_ptr_in_region:
  assumes "wf_rb rb" "idx \<le> max_capacity rb"
  shows "unchecked_ptr_from_idx rb idx \<in> region rb"
proof -
  have "0 < max_capacity rb" using wf_rbD(1) [OF assms(1)] by simp
  then have "(begin_ptr rb - buffer rb + idx) mod max_capacity rb < max_capacity rb" by simp
  then show ?thesis
    unfolding unchecked_ptr_from_idx_wf [OF assms] region_def by simp
qed

lemma logical_contents_eq:
  "logical_contents (rb, h) =
     map (\<lambda>i. Inr (mem h (unchecked_ptr_from_idx rb i))) [0..<current_size rb]"
  unfolding logical_contents_def size_rb_def
  by (intro map_cong) (simp_all add: assert_idx_def)

lemma logical_contents_region:
  assumes w: "wf_rb rb" and e: "\<forall>x \<in> region rb. mem h1 x = mem h2 x"
  shows "logical_contents (rb, h1) = logical_contents (rb, h2)"
proof -
  have "mem h1 (unchecked_ptr_from_idx rb i) = mem h2 (unchecked_ptr_from_idx rb i)"
    if "i < current_size rb" for i
    using that e unchecked_ptr_in_region [OF w, of i] wf_rbD(8) [OF w] by simp
  then show ?thesis unfolding logical_contents_eq by (intro map_cong) simp_all
qed

lemma logical_contents_frame:
  assumes "wf_rb rb" "frame s s'" "region rb \<inter> region (fst s) = {}"
  shows "logical_contents (rb, snd s') = logical_contents (rb, snd s)"
  using assms(2,3) by (intro logical_contents_region [OF assms(1)]) (auto simp: frame_def)

lemma std_copy_result:
  assumes wa: "wf_rb a"
  shows "k \<le> current_size a \<Longrightarrow> wf_rb (fst s) \<Longrightarrow> region (fst s) \<inter> region a = {} \<Longrightarrow>
     \<forall>x \<in> region a. mem (snd s) x = mem h x \<Longrightarrow>
     std_copy a (Iterator k) (Iterator (current_size a)) s =
       Some (Inr (fold push_back
         (map (\<lambda>i. mem h (unchecked_ptr_from_idx a i)) [k..<current_size a]) s))"
proof (induction "current_size a - k" arbitrary: k s)
  case 0
  then have "k = current_size a" by simp
  then show ?case
    by (subst std_copy.simps) (simp add: it_neq_def it_eq_def)
next
  case (Suc n)
  then have lt: "k < current_size a" by linarith
  then have kc: "k \<le> max_capacity a" using wf_rbD(8) [OF wa] by simp
  have "k + 1 \<le> SIZE_MAX"
    using lt wf_rbD(8) [OF wa] SIZE_MAX_half [OF wf_rbD(2) [OF wa]] by linarith
  then have nxt: "it_incr a (Iterator k) = Iterator (Suc k)"
    using lt by (simp add: it_incr_def size_t_id)
  have "mem (snd s) (unchecked_ptr_from_idx a k) = mem h (unchecked_ptr_from_idx a k)"
    using Suc.prems(4) unchecked_ptr_in_region [OF wa kc] by simp
  then have der: "it_deref_const (a, snd s) (Iterator k) =
      Inr (mem h (unchecked_ptr_from_idx a k))"
    using lt by (simp add: it_deref_const_def assert_idx_def)
  let ?s = "push_back (mem h (unchecked_ptr_from_idx a k)) s"
  have f: "frame s ?s" using Suc.prems(2) by (rule frame_push_back)
  have w: "wf_rb (fst ?s)" using Suc.prems(2) by (rule wf_push_back)
  have r: "region (fst ?s) \<inter> region a = {}"
    using f Suc.prems(3) by (simp add: frame_def same_block_def region_def)
  have m: "\<forall>x \<in> region a. mem (snd ?s) x = mem h x"
    using f Suc.prems(3,4) by (auto simp: frame_def)
  have "std_copy a (Iterator (Suc k)) (Iterator (current_size a)) ?s =
       Some (Inr (fold push_back
         (map (\<lambda>i. mem h (unchecked_ptr_from_idx a i)) [Suc k..<current_size a]) ?s))"
    using Suc.hyps(2) lt w r m by (intro Suc.hyps(1)) simp_all
  then show ?case
    using lt by (subst std_copy.simps) (simp add: it_neq_def it_eq_def der nxt upt_conv_Cons)
qed

lemma reachable_owns:
  "reachable s \<Longrightarrow> (buffer (fst s), max_capacity (fst s)) \<in> set (allocated (snd s))"
proof (induction rule: reachable.induct)
  case (ctor sz d cap alloc h s)
  then show ?case using ctor_Inr [OF ctor] by auto
next
  case (step s m s')
  have "wf_rb (fst s)" using step.hyps(1) by (rule reachable_wf)
  then have "frame s s'" using apply_mutation_frame [of s m] step.hyps(2) by auto
  then show ?case using step.IH by (simp add: frame_def same_block_def)
qed

lemma no_overlap_disjoint:
  assumes "no_overlap p n regions" "(q, m) \<in> set regions"
  shows "{p ..< p + n} \<inter> {q ..< q + m} = {}"
  using assms by (auto simp: no_overlap_def list_all_iff)

subsection \<open>Concrete runs\<close>

text \<open>The equations that evaluate a run on concrete values.\<close>

lemmas run_defs =
  push_back_def emplace_back_def push_front_def emplace_front_def
  add_back_uninitialized_element.simps add_front_uninitialized_element.simps
  size_t_def SIZE_MAX_def advance_ptr_right_def advance_ptr_left_def
  remove_advance_right_def remove_advance_left_def destroy_at_def
  assert_idx_def unchecked_ptr_from_idx_def

lemma fresh2_ctor: "ring_buffer_ctor 4 True 2 bump_allocator empty_heap = Inr fresh2"
  by (simp add: ring_buffer_ctor_def SIZE_MAX_def allocate_def bump_allocator_def empty_heap_def fresh2_def)

lemma reachable_fresh2: "reachable fresh2"
  using fresh2_ctor by (rule reachable.ctor)

lemma reachable_full2: "reachable full2"
  unfolding full2_def by (intro reachable_push_back reachable_fresh2)

lemma full2_fields:
  "current_size (fst full2) = 2" "max_capacity (fst full2) = 2" "buffer (fst full2) = 0"
  "begin_ptr (fst full2) = 1" "end_ptr (fst full2) = 0" "buffer_end (fst full2) = 1"
  "mem (snd full2) 0 = 7" "mem (snd full2) (Suc 0) = 5" "destroyed (snd full2) = [3]"
  "is_destructible (fst full2)"
  by (simp_all add: full2_def fresh2_def push_back_def add_back_uninitialized_element.simps size_t_def SIZE_MAX_def
        advance_ptr_right_def remove_advance_right_def destroy_at_def)

lemma upt10: "[0..<10::nat] = [0,1,2,3,4,5,6,7,8,9]" by code_simp

lemma fresh10_ctor: "ring_buffer_ctor 4 True 10 bump_allocator empty_heap = Inr fresh10"
  by (simp add: ring_buffer_ctor_def SIZE_MAX_def allocate_def bump_allocator_def
      empty_heap_def fresh10_def)

lemma one2_fields:
  "current_size (fst one2) = 1" "max_capacity (fst one2) = 2" "buffer (fst one2) = 0"
  "begin_ptr (fst one2) = 0" "end_ptr (fst one2) = 0" "buffer_end (fst one2) = 1"
  "mem (snd one2) 0 = 3" "destroyed (snd one2) = []" "allocated (snd one2) = [(0, 2)]"
  "is_destructible (fst one2)"
  by (simp_all add: one2_def fresh2_def push_back_def add_back_uninitialized_element.simps size_t_def SIZE_MAX_def
        advance_ptr_right_def remove_advance_right_def destroy_at_def)

lemma reachable_one2: "reachable one2"
  unfolding one2_def by (intro reachable_push_back reachable_fresh2)

lemma upt_1_3: "[1..<Suc 2] = [1, 2]" by code_simp

lemma full2_heap_fields:
  "allocator (fst full2) = bump_allocator" "allocated (snd full2) = [(0, 2)]"
  by (simp_all add: full2_def fresh2_def run_defs)

lemma upt_0_2: "[0..<2] = [0, Suc 0]" by code_simp

lemma logical_contents_full2: "logical_contents full2 = [Inr 5, Inr 7]"
  by (simp add: logical_contents_def size_rb_def at_unfold assert_idx_def
      unchecked_ptr_from_idx_def size_t_def SIZE_MAX_def full2_fields upt_0_2)

lemma reachable_unpopped_fresh2: "reachable_unpopped fresh2"
  using fresh2_ctor by (rule reachable_unpopped.ctor)

lemma reachable_unpopped_full2: "reachable_unpopped full2"
  unfolding full2_def by (intro reachable_unpopped.push_back reachable_unpopped_fresh2)

lemma fronted2_fields:
  "current_size (fst (push_front 4 full2)) = 2"
  "begin_ptr (fst (push_front 4 full2)) = 0"
  "end_ptr (fst (push_front 4 full2)) = 1"
  "buffer_end (fst (push_front 4 full2)) = 1"
  "buffer (fst (push_front 4 full2)) = 0"
  by (simp_all add: full2_def fresh2_def run_defs)

section \<open>Claims\<close>

text \<open>
  C1. On a container whose size equals its capacity, \<^verbatim>\<open>push_back(v)\<close> moves the end cursor one
  slot to the right with wraparound, writes \<open>v\<close> into that slot, runs the destructor (for a
  destructible type) on the element under the begin cursor, which is the front element, moves
  the begin cursor one slot to the right with wraparound, and leaves the size at the capacity.
  Consequently the pushes of \<open>0, \<dots>, C\<close> into a fresh container of capacity \<open>C\<close> leave the
  logical contents \<open>[1, \<dots>, C]\<close> and the size \<open>C\<close>.
\<close>

theorem push_back_on_full_buffer:
  assumes "reachable (rb, h)" and "current_size rb = max_capacity rb"
  shows "1 \<le> max_capacity rb \<and>
     push_back v (rb, h) =
       (rb\<lparr>end_ptr := advance_ptr_right rb (end_ptr rb),
           begin_ptr := advance_ptr_right rb (begin_ptr rb)\<rparr>,
        h\<lparr>mem := (mem h)(advance_ptr_right rb (end_ptr rb) := v),
          destroyed := (if is_destructible rb then destroyed h @ [mem h (begin_ptr rb)]
                        else destroyed h)\<rparr>) \<and>
     advance_ptr_right rb (end_ptr rb) =
       buffer rb + (end_ptr rb - buffer rb + 1) mod max_capacity rb \<and>
     advance_ptr_right rb (begin_ptr rb) =
       buffer rb + (begin_ptr rb - buffer rb + 1) mod max_capacity rb \<and>
     front (rb, h) = Inr (mem h (begin_ptr rb)) \<and>
     size_rb (push_back v (rb, h)) = max_capacity rb \<and>
     (\<forall>sz d C alloc h0 s0. ring_buffer_ctor sz d C alloc h0 = Inr s0 \<longrightarrow>
        size_rb (fold push_back (map int [0..<Suc C]) s0) = C \<and>
        logical_contents (fold push_back (map int [0..<Suc C]) s0) =
          map (\<lambda>i. Inr (int i)) [1..<Suc C])"
proof (intro conjI allI impI)
  have w: "wf_rb rb" using reachable_wf [OF assms(1)] by simp
  show c: "1 \<le> max_capacity rb" using wf_rbD(1) [OF w] .
  show pb: "push_back v (rb, h) =
       (rb\<lparr>end_ptr := advance_ptr_right rb (end_ptr rb),
           begin_ptr := advance_ptr_right rb (begin_ptr rb)\<rparr>,
        h\<lparr>mem := (mem h)(advance_ptr_right rb (end_ptr rb) := v),
          destroyed := (if is_destructible rb then destroyed h @ [mem h (begin_ptr rb)]
                        else destroyed h)\<rparr>)"
    using w assms(2) by (rule push_back_full)
  show "advance_ptr_right rb (end_ptr rb) =
       buffer rb + (end_ptr rb - buffer rb + 1) mod max_capacity rb"
    using w wf_rbD(6,7) [OF w] by (rule advance_ptr_right_mod)
  show "advance_ptr_right rb (begin_ptr rb) =
       buffer rb + (begin_ptr rb - buffer rb + 1) mod max_capacity rb"
    using w wf_rbD(4,5) [OF w] by (rule advance_ptr_right_mod)
  show "front (rb, h) = Inr (mem h (begin_ptr rb))"
    using w c assms(2) by (intro front_is_begin) simp_all
  show "size_rb (push_back v (rb, h)) = max_capacity rb"
    unfolding pb using assms(2) by (simp add: size_rb_def)
next
  fix sz d C alloc h0 and s0 :: "int state"
  assume "ring_buffer_ctor sz d C alloc h0 = Inr s0"
  then show "size_rb (fold push_back (map int [0..<Suc C]) s0) = C"
    and "logical_contents (fold push_back (map int [0..<Suc C]) s0) =
          map (\<lambda>i. Inr (int i)) [1..<Suc C]"
    using push_back_overflow by blast+
qed

theorem push_back_on_full_buffer_witness:
  "reachable full2 \<and> current_size (fst full2) = max_capacity (fst full2) \<and>
   front full2 = Inr 5 \<and> size_rb (push_back 9 full2) = 2 \<and>
   begin_ptr (fst (push_back 9 full2)) = 0 \<and> end_ptr (fst (push_back 9 full2)) = 1 \<and>
   mem (snd (push_back 9 full2)) 1 = 9 \<and> destroyed (snd (push_back 9 full2)) = [3, 5] \<and>
   ring_buffer_ctor 4 True 2 bump_allocator empty_heap = Inr fresh2 \<and>
   size_rb (fold push_back (map int [0..<Suc 2]) fresh2) = 2 \<and>
   logical_contents (fold push_back (map int [0..<Suc 2]) fresh2) = [Inr 1, Inr 2]"
proof -
  have r: "reachable (fst full2, snd full2)" using reachable_full2 by simp
  have f: "current_size (fst full2) = max_capacity (fst full2)" by (simp add: full2_fields)
  note t = push_back_on_full_buffer [OF r f, of 9, unfolded prod.collapse]
  note t2 = t [THEN conjunct2]
  note t3 = t2 [THEN conjunct2]
  note t4 = t3 [THEN conjunct2]
  note t5 = t4 [THEN conjunct2]
  note t6 = t5 [THEN conjunct2]
  have a: "advance_ptr_right (fst full2) (end_ptr (fst full2)) = 1"
    "advance_ptr_right (fst full2) (begin_ptr (fst full2)) = 0"
    using t3 [THEN conjunct1] t4 [THEN conjunct1] by (simp_all add: full2_fields)
  have fr: "front full2 = Inr 5" using t5 [THEN conjunct1] by (simp add: full2_fields)
  have sz: "size_rb (push_back 9 full2) = 2"
    using t6 [THEN conjunct1] by (simp add: full2_fields)
  have pb: "push_back 9 full2 =
       ((fst full2)\<lparr>end_ptr := 1, begin_ptr := 0\<rparr>,
        (snd full2)\<lparr>mem := (mem (snd full2))(1 := 9), destroyed := [3, 5]\<rparr>)"
    using t2 [THEN conjunct1] unfolding a by (simp add: full2_fields)
  have "size_rb (fold push_back (map int [0..<Suc 2]) fresh2) = 2 \<and>
        logical_contents (fold push_back (map int [0..<Suc 2]) fresh2) =
          map (\<lambda>i. Inr (int i)) [1..<Suc 2]"
    using t6 [THEN conjunct2] fresh2_ctor by blast
  then have ov: "size_rb (fold push_back (map int [0..<Suc 2]) fresh2) = 2"
    "logical_contents (fold push_back (map int [0..<Suc 2]) fresh2) = [Inr 1, Inr 2]"
    unfolding upt_1_3 by simp_all
  have p: "begin_ptr (fst (push_back 9 full2)) = 0" "end_ptr (fst (push_back 9 full2)) = 1"
    "mem (snd (push_back 9 full2)) 1 = 9" "destroyed (snd (push_back 9 full2)) = [3, 5]"
    unfolding pb by simp_all
  show ?thesis
    using reachable_full2 f fr sz ov fresh2_ctor p by blast
qed

text \<open>
  C2. In every reachable state \<^verbatim>\<open>at(idx)\<close> fails with the bounds error when \<open>idx\<close> is not below the
  size, in particular right after construction; \<^verbatim>\<open>front()\<close> and \<^verbatim>\<open>back()\<close> are calls of \<^verbatim>\<open>at\<close> and
  fail with the same error on an empty container; below the size, \<^verbatim>\<open>at(idx)\<close> returns the element
  in the slot at offset (offset of the begin cursor + \<open>idx\<close>) modulo the capacity.
\<close>

theorem at_front_back_bounds:
  assumes "reachable (rb, h)"
  shows "(current_size rb \<le> idx \<longrightarrow>
            at (rb, h) idx = Inl (runtime_error ''ring_buffer index out-of-bounds in at''))
       \<and> (\<forall>sz d cap alloc h0 s0. ring_buffer_ctor sz d cap alloc h0 = Inr (s0 :: 'a state) \<longrightarrow>
            size_rb s0 = 0 \<and>
            at s0 idx = Inl (runtime_error ''ring_buffer index out-of-bounds in at''))
       \<and> front (rb, h) = at (rb, h) 0
       \<and> back_rb (rb, h) = at (rb, h) (if current_size rb = 0 then 0 else current_size rb - 1)
       \<and> (current_size rb = 0 \<longrightarrow>
            front (rb, h) = Inl (runtime_error ''ring_buffer index out-of-bounds in at'') \<and>
            back_rb (rb, h) = Inl (runtime_error ''ring_buffer index out-of-bounds in at''))
       \<and> (idx < current_size rb \<longrightarrow>
            at (rb, h) idx =
              Inr (mem h (buffer rb + (begin_ptr rb - buffer rb + idx) mod max_capacity rb)))"
proof (intro conjI allI impI)
  have w: "wf_rb rb" using reachable_wf [OF assms] by simp
  show "front (rb, h) = at (rb, h) 0" by (simp only: front_def)
  show "back_rb (rb, h) = at (rb, h) (if current_size rb = 0 then 0 else current_size rb - 1)"
    by (simp only: back_rb_def fst_conv)
  { assume "current_size rb \<le> idx"
    then show "at (rb, h) idx = Inl (runtime_error ''ring_buffer index out-of-bounds in at'')"
      by (rule at_out_of_range) }
  { assume z: "current_size rb = 0"
    then show "front (rb, h) = Inl (runtime_error ''ring_buffer index out-of-bounds in at'')"
      unfolding front_def by (intro at_out_of_range) simp
    from z show "back_rb (rb, h) = Inl (runtime_error ''ring_buffer index out-of-bounds in at'')"
      unfolding back_rb_def by (simp only: fst_conv if_True) (intro at_out_of_range, simp) }
  { assume "idx < current_size rb"
    with w show "at (rb, h) idx =
              Inr (mem h (buffer rb + (begin_ptr rb - buffer rb + idx) mod max_capacity rb))"
      by (rule at_in_range) }
  { fix sz d cap alloc h0 and s0 :: "'a state"
    assume c: "ring_buffer_ctor sz d cap alloc h0 = Inr s0"
    then show "size_rb s0 = 0" by (simp add: size_rb_def ctor_size)
    from c have "current_size (fst s0) \<le> idx" by (simp add: ctor_size)
    then show "at s0 idx = Inl (runtime_error ''ring_buffer index out-of-bounds in at'')"
      using at_out_of_range [of "fst s0" idx "snd s0"] by simp }
qed

theorem at_front_back_bounds_witness:
  "reachable fresh2 \<and> current_size (fst fresh2) = 0 \<and>
   front fresh2 = Inl (runtime_error ''ring_buffer index out-of-bounds in at'') \<and>
   back_rb fresh2 = Inl (runtime_error ''ring_buffer index out-of-bounds in at'') \<and>
   reachable full2 \<and> current_size (fst full2) = 2 \<and>
   at full2 2 = Inl (runtime_error ''ring_buffer index out-of-bounds in at'') \<and>
   at full2 1 = Inr 7 \<and> back_rb full2 = Inr 7 \<and> front full2 = Inr 5"
proof -
  have r0: "reachable (fst fresh2, snd fresh2)" using reachable_fresh2 by simp
  have r2: "reachable (fst full2, snd full2)" using reachable_full2 by simp
  have z: "current_size (fst fresh2) = 0" by (simp add: fresh2_def)
  have "front (fst fresh2, snd fresh2) =
          Inl (runtime_error ''ring_buffer index out-of-bounds in at'') \<and>
        back_rb (fst fresh2, snd fresh2) =
          Inl (runtime_error ''ring_buffer index out-of-bounds in at'')"
    using at_front_back_bounds [OF r0, of 0] z by blast
  then have a: "front fresh2 = Inl (runtime_error ''ring_buffer index out-of-bounds in at'')"
    and b: "back_rb fresh2 = Inl (runtime_error ''ring_buffer index out-of-bounds in at'')"
    by simp_all
  have "current_size (fst full2) \<le> 2" by (simp add: full2_fields)
  then have "at (fst full2, snd full2) 2 =
      Inl (runtime_error ''ring_buffer index out-of-bounds in at'')"
    using at_front_back_bounds [OF r2, of 2] by blast
  then have c: "at full2 2 = Inl (runtime_error ''ring_buffer index out-of-bounds in at'')"
    by simp
  have "1 < current_size (fst full2)" by (simp add: full2_fields)
  then have "at (fst full2, snd full2) 1 =
      Inr (mem (snd full2) (buffer (fst full2) +
        (begin_ptr (fst full2) - buffer (fst full2) + 1) mod max_capacity (fst full2)))"
    and bk: "back_rb (fst full2, snd full2) = at (fst full2, snd full2)
        (if current_size (fst full2) = 0 then 0 else current_size (fst full2) - 1)"
    using at_front_back_bounds [OF r2, of 1] by blast+
  then have d: "at full2 1 = Inr 7"
    by (simp add: full2_fields)
  have e: "back_rb full2 = Inr 7"
    using bk d by (simp add: full2_fields)
  have "0 < current_size (fst full2)" by (simp add: full2_fields)
  then have "at (fst full2, snd full2) 0 =
      Inr (mem (snd full2) (buffer (fst full2) +
        (begin_ptr (fst full2) - buffer (fst full2) + 0) mod max_capacity (fst full2)))"
    and fr: "front (fst full2, snd full2) = at (fst full2, snd full2) 0"
    using at_front_back_bounds [OF r2, of 0] by blast+
  then have f: "front full2 = Inr 5"
    by (simp add: full2_fields)
  show ?thesis
    using reachable_fresh2 reachable_full2 z a b c d e f by (simp add: full2_fields)
qed

text \<open>
  C3. Every element that leaves the container is claimed to be destroyed exactly once,
  destruction of the container included. \<^verbatim>\<open>~ring_buffer()\<close> only gives the block back: for a
  destructible element type and a container holding the single element 3, no destructor has
  run before the destruction and none has run after it, and the block is deallocated.
\<close>

theorem dtor_destroys_no_element:
  "reachable one2 \<and> is_destructible (fst one2) \<and> size_rb one2 = 1 \<and>
   front one2 = Inr 3 \<and> destroyed (snd one2) = [] \<and>
   destroyed (ring_buffer_dtor one2) = [] \<and> allocated (ring_buffer_dtor one2) = []"
proof -
  have "front one2 = Inr 3"
    by (simp add: front_def at_unfold assert_idx_def unchecked_ptr_from_idx_def size_t_def SIZE_MAX_def
        one2_fields)
  moreover have "destroyed (ring_buffer_dtor one2) = []"
    "allocated (ring_buffer_dtor one2) = []"
    by (simp_all add: ring_buffer_dtor_unfold deallocate_def one2_fields)
  moreover have "reachable one2"
    unfolding one2_def by (intro reachable_push_back reachable_fresh2)
  ultimately show ?thesis
    by (simp add: size_rb_def one2_fields)
qed

text \<open>
  C4. Both dereference forms of an iterator are claimed to go through the checked
  \<^verbatim>\<open>at(index)\<close>. \<^verbatim>\<open>operator*\<close> does; \<^verbatim>\<open>operator->\<close> calls \<^verbatim>\<open>unchecked_ptr_from_idx\<close>. In a
  container of capacity 2 holding one element, \<^verbatim>\<open>*end()\<close> and \<^verbatim>\<open>*cend()\<close> fail with the bounds
  error of \<^verbatim>\<open>at(1)\<close>, while \<^verbatim>\<open>end().operator->()\<close> and \<^verbatim>\<open>cend().operator->()\<close> return the
  address of the second slot without any error.
\<close>

theorem arrow_on_end_does_not_fail:
  "size_rb one2 = 1 \<and> end_it (fst one2) = Iterator 1 \<and> cend (fst one2) = Iterator 1 \<and>
   at one2 1 = Inl (runtime_error ''ring_buffer index out-of-bounds in at'') \<and>
   it_deref one2 (end_it (fst one2)) =
     Inl (runtime_error ''ring_buffer index out-of-bounds in at'') \<and>
   it_deref_const one2 (cend (fst one2)) =
     Inl (runtime_error ''ring_buffer index out-of-bounds in at'') \<and>
   it_arrow (fst one2) (end_it (fst one2)) = buffer (fst one2) + 1 \<and>
   it_arrow_const (fst one2) (cend (fst one2)) = buffer (fst one2) + 1"
proof -
  have "at one2 1 = Inl (runtime_error ''ring_buffer index out-of-bounds in at'')"
    by (simp add: at_unfold assert_idx_def one2_fields)
  then show ?thesis
    by (simp add: size_rb_def end_it_def cend_def it_deref_def it_deref_const_def it_arrow_def
        it_arrow_const_def unchecked_ptr_from_idx_def size_t_def SIZE_MAX_def one2_fields)
qed

text \<open>
  C5. The constructor is claimed to accept every capacity from 1 up to and including
  \<open>SIZE_MAX div 2\<close>. The comparison in the source is \<^verbatim>\<open>>=\<close>, so the capacity \<open>SIZE_MAX div 2\<close>
  itself, which does not exceed the bound named in the comment and in the message, is refused
  with the message of the bound, whatever the allocator would have done.
\<close>

theorem ctor_rejects_half_of_max:
  "(9223372036854775807 :: nat) = SIZE_MAX div 2 \<and>
   ring_buffer_ctor sz d 9223372036854775807 alloc h =
     Inl (runtime_error ''ring_buffer: exceeded limit std::size_t max / 2'')"
  by (simp add: ring_buffer_ctor_def SIZE_MAX_def)

text \<open>
  C6, as stated. The end cursor is claimed to lie \<open>size\<close> slots to the right of the begin
  cursor. Both cursors are inclusive: after one \<^verbatim>\<open>push_back\<close> into a fresh container of
  capacity 2 they are on the same slot, and one step to the right of it is the other slot.
\<close>

theorem cursors_size_steps_counterexample:
  "reachable one2 \<and> current_size (fst one2) = 1 \<and>
   (advance_ptr_right (fst one2) ^^ current_size (fst one2)) (begin_ptr (fst one2)) \<noteq>
     end_ptr (fst one2)"
  using reachable_one2 by (simp add: one2_fields advance_ptr_right_def)

text \<open>
  C6, amended. In every state reached from a successful construction by \<^verbatim>\<open>push_back\<close>,
  \<^verbatim>\<open>emplace_back\<close>, \<^verbatim>\<open>push_front\<close>, \<^verbatim>\<open>emplace_front\<close> and \<^verbatim>\<open>clear\<close>, the two cursors are on the
  same slot when the container is empty, and otherwise walking \<open>size - 1\<close> slots rightward
  (with wraparound) from the begin cursor reaches the end cursor.
\<close>

theorem cursors_span_window:
  assumes "reachable_unpopped s"
  shows "(current_size (fst s) = 0 \<longrightarrow> begin_ptr (fst s) = end_ptr (fst s)) \<and>
         (1 \<le> current_size (fst s) \<longrightarrow>
            (advance_ptr_right (fst s) ^^ (current_size (fst s) - 1)) (begin_ptr (fst s)) =
              end_ptr (fst s))"
proof -
  have w: "wf_rb (fst s)" using assms reachable_unpopped_reachable reachable_wf by blast
  have c: "cursors_ok (fst s)" using assms by (rule reachable_unpopped_cursors_ok)
  have e: "end_ptr (fst s) = buffer (fst s) + (end_ptr (fst s) - buffer (fst s))"
    using wf_rbD(6) [OF w] by simp
  have k: "(advance_ptr_right (fst s) ^^ (current_size (fst s) - 1)) (begin_ptr (fst s)) =
      end_ptr (fst s)"
    using walk_right [OF w wf_rbD(4,5) [OF w], of "current_size (fst s) - 1"] c e
    unfolding cursors_ok_def by simp
  show ?thesis using k by auto
qed

theorem cursors_span_window_witness:
  "reachable_unpopped fresh2 \<and> current_size (fst fresh2) = 0 \<and>
   begin_ptr (fst fresh2) = end_ptr (fst fresh2) \<and>
   reachable_unpopped full2 \<and> current_size (fst full2) = 2 \<and>
   begin_ptr (fst full2) = 1 \<and> end_ptr (fst full2) = 0 \<and>
   advance_ptr_right (fst full2) 1 = 0 \<and>
   reachable_unpopped (push_front 4 full2) \<and> current_size (fst (push_front 4 full2)) = 2 \<and>
   begin_ptr (fst (push_front 4 full2)) = 0 \<and> end_ptr (fst (push_front 4 full2)) = 1 \<and>
   advance_ptr_right (fst (push_front 4 full2)) 0 = 1 \<and>
   (\<exists>s'. clear full2 = Some s' \<and> reachable_unpopped s' \<and> current_size (fst s') = 0 \<and>
      begin_ptr (fst s') = end_ptr (fst s'))"
proof -
  have z: "current_size (fst fresh2) = 0" by (simp add: fresh2_def)
  have a: "begin_ptr (fst fresh2) = end_ptr (fst fresh2)"
    using cursors_span_window [OF reachable_unpopped_fresh2] z by blast
  have "1 \<le> current_size (fst full2)" by (simp add: full2_fields)
  then have "(advance_ptr_right (fst full2) ^^ (current_size (fst full2) - 1))
      (begin_ptr (fst full2)) = end_ptr (fst full2)"
    using cursors_span_window [OF reachable_unpopped_full2] by blast
  then have b: "advance_ptr_right (fst full2) 1 = 0" by (simp add: full2_fields)
  have p: "reachable_unpopped (push_front 4 full2)"
    using reachable_unpopped_full2 by (rule reachable_unpopped.push_front)
  have "1 \<le> current_size (fst (push_front 4 full2))" by (simp add: fronted2_fields)
  then have "(advance_ptr_right (fst (push_front 4 full2)) ^^
        (current_size (fst (push_front 4 full2)) - 1))
      (begin_ptr (fst (push_front 4 full2))) = end_ptr (fst (push_front 4 full2))"
    using cursors_span_window [OF p] by blast
  then have c: "advance_ptr_right (fst (push_front 4 full2)) 0 = 1"
    by (simp add: fronted2_fields)
  have "wf_rb (fst full2)" using reachable_full2 by (rule reachable_wf)
  then obtain s' where s': "clear full2 = Some s'" "current_size (fst s') = 0"
    using clear_result [of "fst full2" "snd full2"] by simp
  have r: "reachable_unpopped s'"
    using reachable_unpopped_full2 s'(1) by (rule reachable_unpopped.clear)
  have "begin_ptr (fst s') = end_ptr (fst s')"
    using cursors_span_window [OF r] s'(2) by blast
  then have d: "\<exists>s'. clear full2 = Some s' \<and> reachable_unpopped s' \<and>
      current_size (fst s') = 0 \<and> begin_ptr (fst s') = end_ptr (fst s')"
    using s' r by blast
  show ?thesis
    using reachable_unpopped_fresh2 reachable_unpopped_full2 p z a b c d
    by (simp add: full2_fields fronted2_fields)
qed

text \<open>
  C7. After a successful construction and after every call of \<^verbatim>\<open>push_back\<close>, \<^verbatim>\<open>emplace_back\<close>,
  \<^verbatim>\<open>push_front\<close>, \<^verbatim>\<open>emplace_front\<close>, \<^verbatim>\<open>pop_front\<close>, \<^verbatim>\<open>pop_back\<close> and \<^verbatim>\<open>clear\<close>, the size
  is at least 0 and at most the capacity.
\<close>

theorem size_within_capacity: "reachable s \<Longrightarrow> 0 \<le> size_rb s \<and> size_rb s \<le> capacity s"
  using reachable_wf [of s] by (simp add: wf_rb_def size_rb_def capacity_def)

theorem size_within_capacity_witness:
  "reachable (push_back 7 (push_back 5 (push_back 3 fresh2))) \<and>
   size_rb (push_back 7 (push_back 5 (push_back 3 fresh2))) = 2 \<and>
   size_rb (push_back 7 (push_back 5 (push_back 3 fresh2))) \<le>
     capacity (push_back 7 (push_back 5 (push_back 3 fresh2)))"
proof -
  have r: "reachable (push_back 7 (push_back 5 (push_back 3 fresh2)))"
    by (intro reachable_push_back reachable_fresh2)
  have "size_rb (push_back 7 (push_back 5 (push_back 3 fresh2))) = 2"
    by (simp add: fresh2_def push_back_def add_back_uninitialized_element.simps size_rb_def size_t_def SIZE_MAX_def
        advance_ptr_right_def remove_advance_right_def)
  with r size_within_capacity [OF r] show ?thesis by simp
qed

text \<open>
  C8. In a freshly constructed container of capacity 10, \<^verbatim>\<open>push_front(2*i)\<close> followed by
  \<^verbatim>\<open>push_back(2*i+1)\<close> for \<open>i = 0, \<dots>, 4\<close> gives the logical contents
  \<open>[8, 6, 4, 2, 0, 1, 3, 5, 7, 9]\<close>, whatever block the allocator returned.
\<close>

theorem interleaved_pushes:
  assumes "ring_buffer_ctor sz d 10 alloc h = Inr s"
  shows "size_rb (interleave s) = 10 \<and>
         logical_contents (interleave s) = map Inr [8, 6, 4, 2, 0, 1, 3, 5, 7, 9]"
proof -
  obtain p where s: "s = (\<lparr>sizeof_ValueType = sz, is_destructible = d, max_capacity = 10, allocator = alloc,
         buffer = p, buffer_end = p + (10 - 1), begin_ptr = p, end_ptr = p, current_size = 0\<rparr>,
        h\<lparr>allocated := (p, 10) # allocated h\<rparr>)"
    using ctor_Inr [OF assms] by blast
  have sz: "size_rb (interleave s) = 10"
    unfolding s interleave_def
    by (simp add: push_back_def add_back_uninitialized_element.simps push_front_def add_front_uninitialized_element.simps size_rb_def size_t_def SIZE_MAX_def
        advance_ptr_right_def advance_ptr_left_def)
  have "map (at (interleave s)) [0,1,2,3,4,5,6,7,8,9] = map Inr [8, 6, 4, 2, 0, 1, 3, 5, 7, 9]"
    unfolding s interleave_def
    by (simp add: push_back_def add_back_uninitialized_element.simps push_front_def add_front_uninitialized_element.simps size_t_def SIZE_MAX_def
        advance_ptr_right_def advance_ptr_left_def assert_idx_def unchecked_ptr_from_idx_def)
  then show ?thesis
    unfolding logical_contents_def sz upt10 using sz by simp
qed

theorem interleaved_pushes_witness:
  "ring_buffer_ctor 4 True 10 bump_allocator empty_heap = Inr fresh10 \<and>
   size_rb (interleave fresh10) = 10 \<and>
   logical_contents (interleave fresh10) = map Inr [8, 6, 4, 2, 0, 1, 3, 5, 7, 9]"
  using interleaved_pushes [OF fresh10_ctor] fresh10_ctor by simp

text \<open>
  C9. Let \<open>a\<close> be a container in any reachable state, and let the allocator answer with a block
  that overlaps no block in use. Then the copy constructor returns a container \<open>b\<close> of the same
  capacity and size whose elements, in logical order, are those of \<open>a\<close>; \<open>a\<close> itself reads as
  before; and whatever sequence of pushes, pops and clears is then applied to \<open>a\<close>, it runs to
  completion and the contents of \<open>b\<close> stay as they were.
\<close>

theorem copy_equal_and_independent:
  assumes r: "reachable (a, h)"
    and al: "allocator a (allocated h) (max_capacity a) = Some p"
    and no: "no_overlap p (max_capacity a) (allocated h)"
  shows "\<exists>b h'. ring_buffer_copy_ctor (a, h) = Some (Inr (b, h')) \<and>
           buffer b = p \<and> capacity (b, h') = capacity (a, h) \<and>
           size_rb (b, h') = size_rb (a, h) \<and>
           logical_contents (b, h') = logical_contents (a, h) \<and>
           logical_contents (a, h') = logical_contents (a, h) \<and>
           (\<forall>ms. \<exists>a' h''. run ms (a, h') = Some (a', h'') \<and>
              logical_contents (b, h'') = logical_contents (b, h'))"
proof -
  let ?n = "current_size a" and ?c = "max_capacity a"
  let ?vs = "map (\<lambda>i. mem h (unchecked_ptr_from_idx a i)) [0..<?n]"
  let ?new = "\<lparr>sizeof_ValueType = sizeof_ValueType a, is_destructible = is_destructible a,
              max_capacity = ?c, allocator = allocator a,
              buffer = p, buffer_end = p + (?c - 1),
              begin_ptr = p, end_ptr = p, current_size = 0\<rparr>"
  let ?alloc = "h\<lparr>allocated := (p, ?c) # allocated h\<rparr>"
  let ?b = "?new\<lparr>end_ptr := buffer ?new + (length ?vs - 1), current_size := length ?vs\<rparr>"
  let ?M = "\<lambda>x. if buffer ?new \<le> x \<and> x < buffer ?new + length ?vs
                 then ?vs ! (x - buffer ?new) else mem ?alloc x"
  let ?h' = "?alloc\<lparr>mem := ?M\<rparr>"
  have w: "wf_rb a" using reachable_wf [OF r] by simp
  have own: "(buffer a, ?c) \<in> set (allocated h)" using reachable_owns [OF r] by simp
  have c: "1 \<le> ?c" "?c < SIZE_MAX div 2" "?n \<le> ?c" using wf_rbD(1,2,8) [OF w] by simp_all
  have wn: "wf_rb ?new" using c by (simp add: wf_rb_def)
  have dis: "region ?new \<inter> region a = {}"
    using no_overlap_disjoint [OF no own] by (simp add: region_def)
  have "ring_buffer_copy_ctor (a, h) = std_copy a (cbegin a) (cend a) (?new, ?alloc)"
    using c(1) al by (simp add: ring_buffer_copy_ctor_def allocate_def)
  also have "\<dots> = Some (Inr (fold push_back ?vs (?new, ?alloc)))"
    unfolding cbegin_def cend_def using wn dis
    by (intro std_copy_result [OF w]) simp_all
  also have "fold push_back ?vs (?new, ?alloc) = (?b, ?h')"
    using c(3) by (intro fold_push_back_fresh [OF wn]) simp_all
  finally have copy: "ring_buffer_copy_ctor (a, h) = Some (Inr (?b, ?h'))" .
  have wb: "wf_rb ?b" using wn c(3) by (intro wf_rb_upd_fresh) simp_all
  have rb: "region ?b = region ?new" by (simp add: region_def)
  have el: "mem ?h' (unchecked_ptr_from_idx ?b i) = mem h (unchecked_ptr_from_idx a i)"
    if i: "i < ?n" for i
  proof -
    have "i < ?c" using i c(3) by simp
    then have "unchecked_ptr_from_idx ?b i = p + i"
      using unchecked_ptr_from_idx_wf [OF wb, of i] by simp
    then show ?thesis using i by simp
  qed
  have eq: "logical_contents (?b, ?h') = logical_contents (a, h)"
    unfolding logical_contents_eq using el by (intro map_cong) simp_all
  have "\<forall>x \<in> region a. mem ?h' x = mem h x"
    using dis c(3) by (auto simp: region_def)
  then have src: "logical_contents (a, ?h') = logical_contents (a, h)"
    by (rule logical_contents_region [OF w])
  have ind: "\<exists>a' h''. run ms (a, ?h') = Some (a', h'') \<and>
      logical_contents (?b, h'') = logical_contents (?b, ?h')" for ms
  proof -
    obtain s' where s': "run ms (a, ?h') = Some s'" "frame (a, ?h') s'"
      using run_frame [of "(a, ?h')" ms] w by auto
    have "logical_contents (?b, snd s') = logical_contents (?b, snd (a, ?h'))"
      using wb s'(2) dis rb by (intro logical_contents_frame) simp_all
    then show ?thesis using s'(1) by (cases s') simp
  qed
  have "buffer ?b = p" "capacity (?b, ?h') = capacity (a, h)" "size_rb (?b, ?h') = size_rb (a, h)"
    by (simp_all add: capacity_def size_rb_def)
  then show ?thesis using copy eq src ind by blast
qed

theorem copy_equal_and_independent_witness:
  "reachable full2 \<and>
   allocator (fst full2) (allocated (snd full2)) (max_capacity (fst full2)) = Some 2 \<and>
   no_overlap 2 (max_capacity (fst full2)) (allocated (snd full2)) \<and>
   begin_ptr (fst full2) = 1 \<and> end_ptr (fst full2) = 0 \<and>
   logical_contents full2 = [Inr 5, Inr 7] \<and>
   (\<exists>b h'. ring_buffer_copy_ctor full2 = Some (Inr (b, h')) \<and>
      buffer b = 2 \<and> capacity (b, h') = 2 \<and>
      logical_contents (b, h') = [Inr 5, Inr 7] \<and>
      (\<exists>a' h''. run [Push_back 1, Pop_front, Clear] (fst full2, h') = Some (a', h'') \<and>
         logical_contents (b, h'') = [Inr 5, Inr 7]))"
proof -
  have r: "reachable (fst full2, snd full2)" using reachable_full2 by simp
  have al: "allocator (fst full2) (allocated (snd full2)) (max_capacity (fst full2)) = Some 2"
    by (simp add: full2_heap_fields full2_fields bump_allocator_def)
  have no: "no_overlap 2 (max_capacity (fst full2)) (allocated (snd full2))"
    by (simp add: full2_heap_fields full2_fields no_overlap_def)
  obtain b h' where c: "ring_buffer_copy_ctor (fst full2, snd full2) = Some (Inr (b, h'))"
    "buffer b = 2" "capacity (b, h') = capacity (fst full2, snd full2)"
    "logical_contents (b, h') = logical_contents (fst full2, snd full2)"
    "\<forall>ms. \<exists>a' h''. run ms (fst full2, h') = Some (a', h'') \<and>
        logical_contents (b, h'') = logical_contents (b, h')"
    using copy_equal_and_independent [OF r al no] by blast
  obtain a' h'' where m: "run [Push_back 1, Pop_front, Clear] (fst full2, h') = Some (a', h'')"
    "logical_contents (b, h'') = logical_contents (b, h')"
    using c(5) by blast
  have "ring_buffer_copy_ctor full2 = Some (Inr (b, h'))" using c(1) by simp
  moreover have "capacity (b, h') = 2" using c(3) by (simp add: capacity_def full2_fields)
  moreover have "logical_contents (b, h') = [Inr 5, Inr 7]"
    using c(4) by (simp add: logical_contents_full2)
  moreover have "logical_contents (b, h'') = [Inr 5, Inr 7]"
    using m(2) c(4) by (simp add: logical_contents_full2)
  ultimately show ?thesis
    using reachable_full2 al no c(2) m(1) logical_contents_full2 full2_fields(4,5) by blast
qed

end
